theory Spec2Isabelle
  imports Main
begin

section \<open>Strings\<close>

text \<open>
  File names and file contents are \<open>string\<close>s. The two string methods the program
  calls are \<open>String.prototype.endsWith\<close> and \<open>String.prototype.replace\<close> with a
  string pattern, which replaces the first occurrence of the pattern only.
\<close>

definition endsWith :: "string \<Rightarrow> string \<Rightarrow> bool" where
  "endsWith s t = (length t \<le> length s \<and> drop (length s - length t) s = t)"

definition startsWith :: "string \<Rightarrow> string \<Rightarrow> bool" where
  "startsWith s t = (take (length t) s = t)"

fun replaceFirst :: "string \<Rightarrow> string \<Rightarrow> string \<Rightarrow> string" where
  "replaceFirst pat rep [] = (if pat = [] then rep else [])"
| "replaceFirst pat rep (c # cs) =
     (if startsWith (c # cs) pat then rep @ drop (length pat) (c # cs)
      else c # replaceFirst pat rep cs)"

text \<open>The line terminator \<open>'\n'\<close>.\<close>

definition nl :: string where
  "nl = [CHR 0x0A]"

text \<open>
  \<open>content.replace(/[^\x20-\x7E]/g, '')\<close>: every character outside the printable
  ASCII range is removed.
\<close>

definition printable :: "char \<Rightarrow> bool" where
  "printable c = (32 \<le> (of_char c :: nat) \<and> (of_char c :: nat) \<le> 126)"

definition sanitize :: "string \<Rightarrow> string" where
  "sanitize s = filter printable s"

section \<open>The file system\<close>

text \<open>
  A directory lists its entries in the order \<open>fs.readdirSync\<close> returns them. A
  location is the list of names from the root of the tree down to a node.
\<close>

datatype node = File string | Dir "(string \<times> node) list"

type_synonym location = "string list"

primrec lookup :: "location \<Rightarrow> node \<Rightarrow> node option" where
  "lookup [] n = Some n"
| "lookup (x # xs) n =
     (case n of
        File _ \<Rightarrow> None
      | Dir es \<Rightarrow> (case map_of es x of None \<Rightarrow> None | Some m \<Rightarrow> lookup xs m))"

definition isDirAt :: "node \<Rightarrow> location \<Rightarrow> bool" where
  "isDirAt t loc = (case lookup loc t of Some (Dir _) \<Rightarrow> True | _ \<Rightarrow> False)"

text \<open>
  A path is a text as the program holds it, split at the separator \<open>/\<close>: absolute
  when the text starts with the separator, relative to the working directory
  otherwise. Its components may be \<open>.\<close> and \<open>..\<close>, so \<open>Rel [''.'']\<close> is the text
  \<open>.\<close>, \<open>Rel [''..'']\<close> is \<open>..\<close> and \<open>Rel []\<close> is \<open>.\<close> as the path module
  prints an empty result. (POSIX paths; a trailing separator and empty components are
  dropped.)
\<close>

datatype path = Abs "string list" | Rel "string list"

fun segments :: "path \<Rightarrow> string list" where
  "segments (Abs xs) = xs"
| "segments (Rel xs) = xs"

text \<open>
  The path module works on the text alone. \<open>path.join\<close> normalizes its result:
  \<open>.\<close> is dropped, \<open>..\<close> removes the component before it, or stays in front of a
  relative path that has nothing left to remove. \<open>path.dirname\<close> drops the last
  component whatever it is, so the directory name of \<open>.\<close> and of \<open>..\<close> is \<open>.\<close>.
\<close>

fun normalizeSegments :: "bool \<Rightarrow> string list \<Rightarrow> string list \<Rightarrow> string list" where
  "normalizeSegments allowAboveRoot res [] = res"
| "normalizeSegments allowAboveRoot res (x # xs) =
     (if x = ''.'' \<or> x = [] then normalizeSegments allowAboveRoot res xs
      else if x = ''..'' then
        (if res \<noteq> [] \<and> last res \<noteq> ''..''
           then normalizeSegments allowAboveRoot (butlast res) xs
         else if allowAboveRoot then normalizeSegments allowAboveRoot (res @ [''..'']) xs
         else normalizeSegments allowAboveRoot res xs)
      else normalizeSegments allowAboveRoot (res @ [x]) xs)"

definition join :: "path \<Rightarrow> string \<Rightarrow> path" where
  "join dir item =
     (case dir of
        Abs xs \<Rightarrow> Abs (normalizeSegments False [] (xs @ [item]))
      | Rel xs \<Rightarrow> Rel (normalizeSegments True [] (xs @ [item])))"

definition dirname :: "path \<Rightarrow> path" where
  "dirname dir = (case dir of Abs xs \<Rightarrow> Abs (butlast xs) | Rel xs \<Rightarrow> Rel (butlast xs))"

text \<open>
  The file system is the tree with the working directory of the process. It resolves a
  path component by component from the root or from the working directory: every
  component is looked up in a directory, \<open>..\<close> leads to the parent (the root is its
  own parent).
\<close>

record fsys =
  tree :: node
  cwd :: location

fun walk :: "node \<Rightarrow> location \<Rightarrow> string list \<Rightarrow> location option" where
  "walk t loc [] = (if lookup loc t = None then None else Some loc)"
| "walk t loc (x # xs) =
     (if \<not> isDirAt t loc then None
      else if x = ''.'' then walk t loc xs
      else if x = ''..'' then walk t (butlast loc) xs
      else walk t (loc @ [x]) xs)"

definition startOf :: "fsys \<Rightarrow> path \<Rightarrow> location" where
  "startOf fs p = (case p of Abs _ \<Rightarrow> [] | Rel _ \<Rightarrow> cwd fs)"

definition locate :: "fsys \<Rightarrow> path \<Rightarrow> location option" where
  "locate fs p = walk (tree fs) (startOf fs p) (segments p)"

definition nodeAt :: "fsys \<Rightarrow> path \<Rightarrow> node option" where
  "nodeAt fs p = (case locate fs p of None \<Rightarrow> None | Some loc \<Rightarrow> lookup loc (tree fs))"

text \<open>\<open>fs.existsSync\<close> is true of every kind of entry, a directory included.\<close>

definition existsSync :: "fsys \<Rightarrow> path \<Rightarrow> bool" where
  "existsSync fs p = (nodeAt fs p \<noteq> None)"

datatype js_error =
    ENOENT path
  | ENOTDIR path
  | EISDIR path
  | EACCES path
  | TypeError string

definition readFileSync :: "fsys \<Rightarrow> path \<Rightarrow> js_error + string" where
  "readFileSync fs p =
     (case nodeAt fs p of
        None \<Rightarrow> Inl (ENOENT p)
      | Some (Dir _) \<Rightarrow> Inl (EISDIR p)
      | Some (File c) \<Rightarrow> Inr c)"

text \<open>
  Replacing the content of the file at a location, or creating the file in an existing
  directory; the rest of the tree is kept. \<open>None\<close> when the location is a directory
  or lies under no directory.
\<close>

fun setEntry :: "string \<Rightarrow> node \<Rightarrow> (string \<times> node) list \<Rightarrow> (string \<times> node) list" where
  "setEntry x m [] = [(x, m)]"
| "setEntry x m ((y, n) # es) = (if x = y then (x, m) # es else (y, n) # setEntry x m es)"

primrec store :: "location \<Rightarrow> string \<Rightarrow> node \<Rightarrow> node option" where
  "store [] c n = (case n of File _ \<Rightarrow> Some (File c) | Dir _ \<Rightarrow> None)"
| "store (x # xs) c n =
     (case n of
        File _ \<Rightarrow> None
      | Dir es \<Rightarrow>
          (case map_of es x of
             None \<Rightarrow> (if xs = [] then Some (Dir (setEntry x (File c) es)) else None)
           | Some m \<Rightarrow>
               (case store xs c m of
                  None \<Rightarrow> None
                | Some m' \<Rightarrow> Some (Dir (setEntry x m' es)))))"

text \<open>
  The location a write goes to: that of the path if it resolves, else the last
  component under the directory the rest of the path resolves to.
\<close>

definition target :: "fsys \<Rightarrow> path \<Rightarrow> location option" where
  "target fs p =
     (case locate fs p of
        Some loc \<Rightarrow> Some loc
      | None \<Rightarrow>
          (if segments p = [] then None
           else case walk (tree fs) (startOf fs p) (butlast (segments p)) of
                  None \<Rightarrow> None
                | Some parent \<Rightarrow> Some (parent @ [last (segments p)])))"

section \<open>Discovery and pairing\<close>

record spec_file =
  specFileName :: string
  specFilePath :: path
  relatedFileName :: "string option"
  relatedFilePath :: "path option"

definition isSpecName :: "string \<Rightarrow> bool" where
  "isSpecName item =
     (endsWith item ''.spec.js'' \<or> endsWith item ''.spec.ts'' \<or> endsWith item ''.spec.vue'')"

definition relatedName :: "string \<Rightarrow> string" where
  "relatedName item = replaceFirst ''.spec.'' ''.'' item"

text \<open>
  The body of the branch taken for a file with a specification suffix: the candidate in
  the same directory, then the candidate in the parent directory, then \<open>null\<close>.
\<close>

definition resolveRelated :: "fsys \<Rightarrow> path \<Rightarrow> string \<Rightarrow> path option" where
  "resolveRelated fs dir item =
     (let relatedFileName = relatedName item;
          relatedFilePath = join dir relatedFileName
      in if existsSync fs relatedFilePath then Some relatedFilePath
         else let parentDir = dirname dir;
                  relatedFilePath' = join parentDir relatedFileName
              in if \<not> existsSync fs relatedFilePath' then None else Some relatedFilePath')"

definition specRecord :: "fsys \<Rightarrow> path \<Rightarrow> string \<Rightarrow> spec_file" where
  "specRecord fs dir item =
     (let relatedFilePath = resolveRelated fs dir item
      in \<lparr> specFileName = item,
           specFilePath = join dir item,
           relatedFileName = (if relatedFilePath \<noteq> None then Some (relatedName item) else None),
           relatedFilePath = relatedFilePath \<rparr>)"

text \<open>
  \<open>findSpecFilesAndRelated(dir, filesList)\<close>: \<open>findItems\<close> is the \<open>forEach\<close> over the
  entries of one directory, \<open>findDir\<close> the call on a directory node. The accumulator is
  \<open>filesList\<close>.
\<close>

fun findDir :: "fsys \<Rightarrow> path \<Rightarrow> node \<Rightarrow> spec_file list \<Rightarrow> spec_file list"
  and findItems :: "fsys \<Rightarrow> path \<Rightarrow> (string \<times> node) list \<Rightarrow> spec_file list \<Rightarrow> spec_file list"
where
  "findDir fs dir (Dir es) filesList = findItems fs dir es filesList"
| "findDir fs dir (File c) filesList = filesList"
| "findItems fs dir [] filesList = filesList"
| "findItems fs dir ((item, n) # es) filesList =
     findItems fs dir es
       (case n of
          Dir _ \<Rightarrow> findDir fs (join dir item) n filesList
        | File _ \<Rightarrow>
            (if isSpecName item then filesList @ [specRecord fs dir item] else filesList))"

text \<open>
  The call from \<open>main\<close>, where \<open>fs.readdirSync\<close> throws on a path that is missing or
  is not a directory.
\<close>

definition findSpecFilesAndRelated :: "fsys \<Rightarrow> path \<Rightarrow> js_error + spec_file list" where
  "findSpecFilesAndRelated fs dir =
     (case nodeAt fs dir of
        None \<Rightarrow> Inl (ENOENT dir)
      | Some (File _) \<Rightarrow> Inl (ENOTDIR dir)
      | Some (Dir es) \<Rightarrow> Inr (findItems fs dir es []))"

section \<open>Values parsed from the review service's text\<close>

text \<open>
  What \<open>JSON.parse\<close> returns. An object is the list of its properties, each name
  once; the only fact the program reads of a number is whether it is zero, so numbers
  are integers here.
\<close>

datatype json =
    JNull
  | JBool bool
  | JNum int
  | JStr string
  | JArr "json list"
  | JObj "(string \<times> json) list"

text \<open>
  \<open>parsedResponse.newSpecContent\<close>: reading a property of \<open>null\<close> throws, a value
  that has no such property gives \<open>undefined\<close> (\<open>None\<close>).
\<close>

fun newSpecContentOf :: "json \<Rightarrow> js_error + json option" where
  "newSpecContentOf JNull = Inl (TypeError ''Cannot read properties of null'')"
| "newSpecContentOf (JObj kvs) = Inr (map_of kvs ''newSpecContent'')"
| "newSpecContentOf v = Inr None"

text \<open>The truth value JavaScript gives a value in a condition.\<close>

fun truthy :: "json option \<Rightarrow> bool" where
  "truthy None = False"
| "truthy (Some JNull) = False"
| "truthy (Some (JBool b)) = b"
| "truthy (Some (JNum n)) = (n \<noteq> 0)"
| "truthy (Some (JStr s)) = (s \<noteq> [])"
| "truthy (Some (JArr vs)) = True"
| "truthy (Some (JObj kvs)) = True"

text \<open>
  \<open>claudeResponse\<close> is \<open>null\<close> (\<open>None\<close>) or the text of the reply; the empty text is
  as false as \<open>null\<close>.
\<close>

definition truthyText :: "string option \<Rightarrow> bool" where
  "truthyText r = (case r of None \<Rightarrow> False | Some t \<Rightarrow> t \<noteq> [])"

section \<open>The orchestrator\<close>

text \<open>
  What the program does not decide: the review service, \<open>JSON.parse\<close> and which paths
  can be written. \<open>service e n spec related\<close> is what \<open>sendToClaudeForReview\<close> returns
  for the \<open>n\<close>-th request of the run (counted from 0): the reply's text, or \<open>None\<close>
  for \<open>null\<close>, which it returns after a transport failure and for a reply of an
  unexpected format. \<open>JSON_parse e t\<close> is \<open>None\<close> when \<open>JSON.parse\<close> throws.
\<close>

record env =
  service :: "nat \<Rightarrow> string \<Rightarrow> string option \<Rightarrow> string option"
  JSON_parse :: "string \<Rightarrow> json option"
  writable :: "path \<Rightarrow> bool"

datatype failure = NoResponseAfter nat | Thrown js_error

text \<open>The report object that \<open>updateReport\<close> serializes.\<close>

record report =
  totalProcessed :: int
  successfullyProcessed :: int
  errors :: int
  skipped :: int
  successfulFiles :: "path list"
  errorFiles :: "(string \<times> failure) list"
  skippedFiles :: "path list"

text \<open>
  The state of a run: the file system, the three lists of \<open>processedFiles\<close>, the requests
  sent to the review service, the delays waited (in milliseconds) and the successive
  contents of the report file, the latest last (each write replaces the file).
\<close>

record state =
  disk :: fsys
  pf_success :: "path list"
  pf_error :: "(string \<times> failure) list"
  pf_skipped :: "path list"
  requests :: "(string \<times> string option) list"
  delays :: "nat list"
  reportWrites :: "report list"

definition initState :: "fsys \<Rightarrow> state" where
  "initState d =
     \<lparr> disk = d, pf_success = [], pf_error = [], pf_skipped = [],
       requests = [], delays = [], reportWrites = [] \<rparr>"

definition writeFileSync :: "env \<Rightarrow> fsys \<Rightarrow> path \<Rightarrow> string \<Rightarrow> js_error + fsys" where
  "writeFileSync e fs p c =
     (if writable e p then
        (case target fs p of
           None \<Rightarrow> Inl (ENOENT p)
         | Some loc \<Rightarrow>
             (case store loc c (tree fs) of
                None \<Rightarrow> Inl (EISDIR p)
              | Some t \<Rightarrow> Inr (fs\<lparr>tree := t\<rparr>)))
      else Inl (EACCES p))"

definition buildReport :: "state \<Rightarrow> report" where
  "buildReport s =
     \<lparr> totalProcessed =
         int (length (pf_success s)) + int (length (pf_error s)) + int (length (pf_skipped s)),
       successfullyProcessed = int (length (pf_success s)),
       errors = int (length (pf_error s)),
       skipped = int (length (pf_skipped s)),
       successfulFiles = pf_success s,
       errorFiles = pf_error s,
       skippedFiles = pf_skipped s \<rparr>"

text \<open>\<open>updateReport\<close>: a failed write is logged and nothing else happens.\<close>

definition updateReport :: "env \<Rightarrow> path \<Rightarrow> state \<Rightarrow> state" where
  "updateReport e reportPath s =
     (if writable e reportPath then s\<lparr>reportWrites := reportWrites s @ [buildReport s]\<rparr>
      else s)"

definition sendToClaudeForReview ::
  "env \<Rightarrow> string \<Rightarrow> string option \<Rightarrow> state \<Rightarrow> string option \<times> state" where
  "sendToClaudeForReview e specContent relatedContent s =
     (service e (length (requests s)) specContent relatedContent,
      s\<lparr>requests := requests s @ [(specContent, relatedContent)]\<rparr>)"

definition maxRetries :: nat where
  "maxRetries = 3"

text \<open>
  The \<open>try\<close> block of the retry loop, up to the value \<open>claudeResponse\<close> has after it.
  Everything thrown between \<open>JSON.parse\<close> and the end of the inner \<open>try\<close> (a syntax
  error, a property read of \<open>null\<close>, \<open>endsWith\<close> missing on a value that is not a
  string, a failed write) is caught by the same handler, which resets
  \<open>claudeResponse\<close> to \<open>null\<close>.
\<close>

definition tryReview ::
  "env \<Rightarrow> path \<Rightarrow> spec_file \<Rightarrow> string \<Rightarrow> string option \<Rightarrow> state \<Rightarrow> string option \<times> state" where
  "tryReview e reportPath f specContent relatedContent s =
     (case sendToClaudeForReview e specContent relatedContent s of
        (claudeResponse, s1) \<Rightarrow>
          if \<not> truthyText claudeResponse then (claudeResponse, s1)
          else
            (case JSON_parse e (the claudeResponse) of
               None \<Rightarrow> (None, s1)
             | Some parsedResponse \<Rightarrow>
                 (case newSpecContentOf parsedResponse of
                    Inl err \<Rightarrow> (None, s1)
                  | Inr v \<Rightarrow>
                      if truthy v then
                        (case v of
                           Some (JStr c) \<Rightarrow>
                             (let newContent = (if endsWith c nl then c else c @ nl)
                              in case writeFileSync e (disk s1) (specFilePath f) newContent of
                                   Inl err \<Rightarrow> (None, s1)
                                 | Inr d \<Rightarrow>
                                     (claudeResponse,
                                      updateReport e reportPath
                                        (s1\<lparr>disk := d,
                                            pf_success := pf_success s1 @ [specFilePath f]\<rparr>)))
                         | _ \<Rightarrow> (None, s1))
                      else
                        (claudeResponse,
                         updateReport e reportPath
                           (s1\<lparr>pf_skipped := pf_skipped s1 @ [specFilePath f]\<rparr>)))))"

text \<open>
  The loop \<open>while (retries < maxRetries && !claudeResponse)\<close> with the block that
  follows the \<open>try\<close> in its body.
\<close>

function reviewLoop ::
  "env \<Rightarrow> path \<Rightarrow> spec_file \<Rightarrow> string \<Rightarrow> string option \<Rightarrow> nat \<Rightarrow> string option \<Rightarrow> state
     \<Rightarrow> string option \<times> state" where
  "reviewLoop e reportPath f specContent relatedContent retries claudeResponse s =
     (if retries < maxRetries \<and> \<not> truthyText claudeResponse then
        (case tryReview e reportPath f specContent relatedContent s of
           (claudeResponse', s1) \<Rightarrow>
             if \<not> truthyText claudeResponse' then
               (if retries + 1 < maxRetries then
                  reviewLoop e reportPath f specContent relatedContent (retries + 1) claudeResponse'
                    (s1\<lparr>delays := delays s1 @ [1000 * (retries + 1)]\<rparr>)
                else
                  reviewLoop e reportPath f specContent relatedContent (retries + 1) claudeResponse'
                    (updateReport e reportPath
                       (s1\<lparr>pf_error :=
                             pf_error s1 @ [(specFileName f, NoResponseAfter maxRetries)]\<rparr>)))
             else
               reviewLoop e reportPath f specContent relatedContent retries claudeResponse' s1)
      else (claudeResponse, s))"
  by pat_completeness auto
termination
  by (relation "measure (\<lambda>(e, rp, f, sc, rc, retries, r, s).
        2 * (maxRetries - retries) + (if truthyText r then 0 else 1))")
     (auto simp: maxRetries_def split: prod.splits)

text \<open>The handler of the \<open>try\<close> around the processing of one record.\<close>

definition recordThrown :: "env \<Rightarrow> path \<Rightarrow> spec_file \<Rightarrow> js_error \<Rightarrow> state \<Rightarrow> state" where
  "recordThrown e reportPath f err s =
     updateReport e reportPath (s\<lparr>pf_error := pf_error s @ [(specFileName f, Thrown err)]\<rparr>)"

text \<open>
  The body of the \<open>for\<close> loop of \<open>main\<close>, for one record: \<open>readRelated\<close> is the
  read of the paired file, \<open>reviewWithRetries\<close> the retry loop from \<open>retries = 0\<close> and
  \<open>claudeResponse = null\<close> with the check that follows the loop.
\<close>

definition readRelated :: "fsys \<Rightarrow> spec_file \<Rightarrow> js_error + string option" where
  "readRelated d f =
     (case relatedFilePath f of
        None \<Rightarrow> Inr None
      | Some p \<Rightarrow>
          (case readFileSync d p of
             Inl err \<Rightarrow> Inl err
           | Inr relatedContent \<Rightarrow> Inr (Some (sanitize relatedContent))))"

definition reviewWithRetries ::
  "env \<Rightarrow> path \<Rightarrow> spec_file \<Rightarrow> string \<Rightarrow> string option \<Rightarrow> state \<Rightarrow> state" where
  "reviewWithRetries e reportPath f specContent relatedContent s =
     (case reviewLoop e reportPath f specContent relatedContent 0 None s of
        (claudeResponse, s1) \<Rightarrow>
          if \<not> truthyText claudeResponse then
            updateReport e reportPath
              (s1\<lparr>pf_error := pf_error s1 @ [(specFileName f, NoResponseAfter maxRetries)]\<rparr>)
          else s1)"

definition processRecord :: "env \<Rightarrow> path \<Rightarrow> spec_file \<Rightarrow> state \<Rightarrow> state" where
  "processRecord e reportPath f s =
     (case readFileSync (disk s) (specFilePath f) of
        Inl err \<Rightarrow> recordThrown e reportPath f err s
      | Inr specContent \<Rightarrow>
          (let sanitizedSpecContent = sanitize specContent
           in case readRelated (disk s) f of
                Inl err \<Rightarrow> recordThrown e reportPath f err s
              | Inr sanitizedRelatedContent \<Rightarrow>
                  reviewWithRetries e reportPath f sanitizedSpecContent
                    sanitizedRelatedContent s))"

fun processAll :: "env \<Rightarrow> path \<Rightarrow> spec_file list \<Rightarrow> state \<Rightarrow> state" where
  "processAll e reportPath [] s = s"
| "processAll e reportPath (f # fs) s = processAll e reportPath fs (processRecord e reportPath f s)"

text \<open>
  \<open>main\<close>, from the directory the user entered: it returns at once when the directory
  does not exist, its promise is rejected when discovery throws, and otherwise every
  discovered record is processed in order, starting from empty lists. The report is
  written to \<open>reportFileName\<close> (named after the time of the run) in the start directory.
\<close>

datatype run = NoSuchDirectory | Rejected js_error | Completed state

definition main :: "env \<Rightarrow> path \<Rightarrow> string \<Rightarrow> fsys \<Rightarrow> run" where
  "main e startDir reportFileName d =
     (if \<not> existsSync d startDir then NoSuchDirectory
      else case findSpecFilesAndRelated d startDir of
             Inl err \<Rightarrow> Rejected err
           | Inr result \<Rightarrow>
               Completed (processAll e (join startDir reportFileName) result (initState d)))"

section \<open>The orchestrator of \<open>src/index.js\<close>\<close>

text \<open>
  The older variant keeps two lists (success and error), writes the returned content as
  it is (\<open>fs.writeFileSync\<close> throws on a content that is not a text), and writes the
  report once, after the loop. In it \<open>sanitizedRelatedContent\<close> is declared
  \<open>const\<close> with the value \<open>null\<close>, and assigned in the branch of a paired record:
  the assignment throws a \<open>TypeError\<close>.
\<close>

definition tryReview_legacy ::
  "env \<Rightarrow> spec_file \<Rightarrow> string \<Rightarrow> string option \<Rightarrow> state \<Rightarrow> string option \<times> state" where
  "tryReview_legacy e f specContent relatedContent s =
     (case sendToClaudeForReview e specContent relatedContent s of
        (claudeResponse, s1) \<Rightarrow>
          if \<not> truthyText claudeResponse then (claudeResponse, s1)
          else
            (case JSON_parse e (the claudeResponse) of
               None \<Rightarrow> (None, s1)
             | Some parsedResponse \<Rightarrow>
                 (case newSpecContentOf parsedResponse of
                    Inl err \<Rightarrow> (None, s1)
                  | Inr v \<Rightarrow>
                      if truthy v then
                        (case v of
                           Some (JStr c) \<Rightarrow>
                             (case writeFileSync e (disk s1) (specFilePath f) c of
                                Inl err \<Rightarrow> (None, s1)
                              | Inr d \<Rightarrow>
                                  (claudeResponse,
                                   s1\<lparr>disk := d,
                                      pf_success := pf_success s1 @ [specFilePath f]\<rparr>))
                         | _ \<Rightarrow> (None, s1))
                      else (claudeResponse, s1))))"

function reviewLoop_legacy ::
  "env \<Rightarrow> spec_file \<Rightarrow> string \<Rightarrow> string option \<Rightarrow> nat \<Rightarrow> string option \<Rightarrow> state
     \<Rightarrow> string option \<times> state" where
  "reviewLoop_legacy e f specContent relatedContent retries claudeResponse s =
     (if retries < maxRetries \<and> \<not> truthyText claudeResponse then
        (case tryReview_legacy e f specContent relatedContent s of
           (claudeResponse', s1) \<Rightarrow>
             if \<not> truthyText claudeResponse' then
               (if retries + 1 < maxRetries then
                  reviewLoop_legacy e f specContent relatedContent (retries + 1) claudeResponse'
                    (s1\<lparr>delays := delays s1 @ [1000 * (retries + 1)]\<rparr>)
                else
                  reviewLoop_legacy e f specContent relatedContent (retries + 1) claudeResponse'
                    (s1\<lparr>pf_error :=
                          pf_error s1 @ [(specFileName f, NoResponseAfter maxRetries)]\<rparr>))
             else reviewLoop_legacy e f specContent relatedContent retries claudeResponse' s1)
      else (claudeResponse, s))"
  by pat_completeness auto
termination
  by (relation "measure (\<lambda>(e, f, sc, rc, retries, r, s).
        2 * (maxRetries - retries) + (if truthyText r then 0 else 1))")
     (auto simp: maxRetries_def split: prod.splits)

definition recordThrown_legacy :: "spec_file \<Rightarrow> js_error \<Rightarrow> state \<Rightarrow> state" where
  "recordThrown_legacy f err s = s\<lparr>pf_error := pf_error s @ [(specFileName f, Thrown err)]\<rparr>"

definition processRecord_legacy :: "env \<Rightarrow> spec_file \<Rightarrow> state \<Rightarrow> state" where
  "processRecord_legacy e f s =
     (case readFileSync (disk s) (specFilePath f) of
        Inl err \<Rightarrow> recordThrown_legacy f err s
      | Inr specContent \<Rightarrow>
          (let sanitizedSpecContent = sanitize specContent;
               sanitizedRelatedContent = None
           in case (case relatedFilePath f of
                      None \<Rightarrow> Inr ()
                    | Some p \<Rightarrow>
                        (case readFileSync (disk s) p of
                           Inl err \<Rightarrow> Inl err
                         | Inr relatedContent \<Rightarrow>
                             Inl (TypeError ''Assignment to constant variable.''))) of
                Inl err \<Rightarrow> recordThrown_legacy f err s
              | Inr _ \<Rightarrow>
                  (case reviewLoop_legacy e f sanitizedSpecContent sanitizedRelatedContent
                          0 None s of
                     (claudeResponse, s1) \<Rightarrow>
                       if \<not> truthyText claudeResponse then
                         s1\<lparr>pf_error :=
                              pf_error s1 @ [(specFileName f, NoResponseAfter maxRetries)]\<rparr>
                       else s1)))"

fun processAll_legacy :: "env \<Rightarrow> spec_file list \<Rightarrow> state \<Rightarrow> state" where
  "processAll_legacy e [] s = s"
| "processAll_legacy e (f # fs) s = processAll_legacy e fs (processRecord_legacy e f s)"

text \<open>
  The report of the older variant has no count and no list of skipped files. The run
  ends with the final state and the report file's content, if the write succeeded.
\<close>

datatype legacy_report =
  LegacyReport (l_totalProcessed: int) (l_successfullyProcessed: int) (l_errors: int)
    (l_successfulFiles: "path list") (l_errorFiles: "(string \<times> failure) list")

definition buildReport_legacy :: "state \<Rightarrow> legacy_report" where
  "buildReport_legacy s =
     LegacyReport
       (int (length (pf_success s)) + int (length (pf_error s)))
       (int (length (pf_success s)))
       (int (length (pf_error s)))
       (pf_success s)
       (pf_error s)"

datatype legacy_run =
  LegacyNoSuchDirectory | LegacyRejected js_error | LegacyCompleted state "legacy_report option"

definition main_legacy :: "env \<Rightarrow> path \<Rightarrow> string \<Rightarrow> fsys \<Rightarrow> legacy_run" where
  "main_legacy e startDir reportFileName d =
     (if \<not> existsSync d startDir then LegacyNoSuchDirectory
      else case findSpecFilesAndRelated d startDir of
             Inl err \<Rightarrow> LegacyRejected err
           | Inr result \<Rightarrow>
               (let s = processAll_legacy e result (initState d)
                in LegacyCompleted s
                     (if writable e (join startDir reportFileName)
                      then Some (buildReport_legacy s) else None)))"

section \<open>Kinds of replies\<close>

text \<open>
  The two failures of an attempt that the review service causes, for the \<open>n\<close>-th
  request of the run: \<open>sendToClaudeForReview\<close> returned nothing to work on
  (\<open>null\<close> after a transport failure or a reply of an unexpected format, or an empty
  text), or it returned a text that \<open>JSON.parse\<close> rejects.
\<close>

definition transportFailure :: "env \<Rightarrow> nat \<Rightarrow> string \<Rightarrow> string option \<Rightarrow> bool" where
  "transportFailure e n specContent relatedContent =
     (\<not> truthyText (service e n specContent relatedContent))"

definition unparseable :: "env \<Rightarrow> nat \<Rightarrow> string \<Rightarrow> string option \<Rightarrow> bool" where
  "unparseable e n specContent relatedContent =
     (case service e n specContent relatedContent of
        None \<Rightarrow> False
      | Some t \<Rightarrow> t \<noteq> [] \<and> JSON_parse e t = None)"

definition attemptFails :: "env \<Rightarrow> nat \<Rightarrow> string \<Rightarrow> string option \<Rightarrow> bool" where
  "attemptFails e n specContent relatedContent =
     (transportFailure e n specContent relatedContent
      \<or> unparseable e n specContent relatedContent)"

text \<open>A text ends with exactly one line terminator.\<close>

definition endsWithOneNewline :: "string \<Rightarrow> bool" where
  "endsWithOneNewline c = (endsWith c nl \<and> \<not> endsWith c (nl @ nl))"

text \<open>The invariant of a report: the total is the sum of the three counts, none negative.\<close>

definition reportConsistent :: "report \<Rightarrow> bool" where
  "reportConsistent r =
     (totalProcessed r = successfullyProcessed r + skipped r + errors r
      \<and> 0 \<le> totalProcessed r \<and> 0 \<le> successfullyProcessed r
      \<and> 0 \<le> skipped r \<and> 0 \<le> errors r)"

text \<open>
  A tree holds no regular file whose name has a specification suffix.
\<close>

fun noSpecIn :: "node \<Rightarrow> bool"
  and noSpecInItems :: "(string \<times> node) list \<Rightarrow> bool"
where
  "noSpecIn (File c) = True"
| "noSpecIn (Dir es) = noSpecInItems es"
| "noSpecInItems [] = True"
| "noSpecInItems ((item, n) # es) =
     ((case n of File _ \<Rightarrow> \<not> isSpecName item | Dir _ \<Rightarrow> noSpecIn n) \<and> noSpecInItems es)"

section \<open>Concrete runs\<close>

text \<open>
  A review service that answers the requests of a run from a fixed list of replies, a
  parser that knows four texts, and a few small file trees.
\<close>

definition scripted :: "string option list \<Rightarrow> nat \<Rightarrow> string \<Rightarrow> string option \<Rightarrow> string option" where
  "scripted replies n specContent relatedContent =
     (if n < length replies then replies ! n else None)"

definition parseKnown :: "string \<Rightarrow> json option" where
  "parseKnown t =
     (if t = ''{newSpecContent:X+nl}'' then Some (JObj [(''newSpecContent'', JStr (''X'' @ nl))])
      else if t = ''{newSpecContent:X+nl+nl}''
        then Some (JObj [(''newSpecContent'', JStr (''X'' @ nl @ nl))])
      else if t = ''{newSpecContent:X}'' then Some (JObj [(''newSpecContent'', JStr ''X'')])
      else if t = ''{analysis:none}'' then Some (JObj [(''analysis'', JStr ''none'')])
      else None)"

definition scriptedEnv :: "string option list \<Rightarrow> env" where
  "scriptedEnv replies =
     \<lparr> service = scripted replies, JSON_parse = parseKnown, writable = (\<lambda>p. True) \<rparr>"

definition projTree :: fsys where
  "projTree =
     \<lparr> tree =
         Dir [(''proj'',
           Dir [(''a.spec.js'', File ''test a''),
                (''a.js'', File ''code a''),
                (''tests'', Dir [(''b.spec.ts'', File ''test b'')]),
                (''b.ts'', File ''code b''),
                (''c.spec.vue'', File ''test c'')])],
       cwd = [] \<rparr>"

definition plainTree :: fsys where
  "plainTree =
     \<lparr> tree =
         Dir [(''proj'',
           Dir [(''a.js'', File ''code a''),
                (''lib'', Dir [(''b.ts'', File ''code b'')])])],
       cwd = [] \<rparr>"

definition nestedSpecTree :: fsys where
  "nestedSpecTree =
     \<lparr> tree =
         Dir [(''proj'',
           Dir [(''a.spec.js'', File ''test a''),
                (''a.spec.spec.js'', File ''test of test a'')])],
       cwd = [] \<rparr>"

definition specA :: spec_file where
  "specA =
     \<lparr> specFileName = ''a.spec.js'', specFilePath = Rel [''proj'', ''a.spec.js''],
       relatedFileName = Some ''a.js'', relatedFilePath = Some (Rel [''proj'', ''a.js'']) \<rparr>"

definition specC :: spec_file where
  "specC =
     \<lparr> specFileName = ''c.spec.vue'', specFilePath = Rel [''proj'', ''c.spec.vue''],
       relatedFileName = None, relatedFilePath = None \<rparr>"

definition oneSpecTree :: fsys where
  "oneSpecTree =
     \<lparr> tree = Dir [(''proj'', Dir [(''c.spec.vue'', File ''test c'')])], cwd = [] \<rparr>"

definition reportAt :: path where
  "reportAt = Rel [''proj'', ''simplify_report.json'']"

text \<open>
  A tree in which the subject file \<open>a.js\<close> of \<open>work/proj/a.spec.js\<close> lies one
  level up, in \<open>work\<close>, and a file of the same name lies one level down, in
  \<open>work/proj/sub\<close>; the process runs in \<open>work/proj\<close> or in \<open>work/proj/sub\<close>.
\<close>

definition workTree :: node where
  "workTree =
     Dir [(''work'',
       Dir [(''a.js'', File ''code up''),
            (''proj'',
               Dir [(''a.spec.js'', File ''test a''),
                    (''sub'', Dir [(''a.js'', File ''code down'')])])])]"

definition inProj :: fsys where
  "inProj = \<lparr> tree = workTree, cwd = [''work'', ''proj''] \<rparr>"

definition inSub :: fsys where
  "inSub = \<lparr> tree = workTree, cwd = [''work'', ''proj'', ''sub''] \<rparr>"

section \<open>Strings and files: basic facts\<close>

lemma endsWith_append_same: "endsWith (c @ t) t"
  by (simp add: endsWith_def)

lemma map_of_setEntry: "map_of (setEntry x m es) y = (if y = x then Some m else map_of es y)"
  by (induction es) auto

lemma lookup_store: "store loc c t = Some t' \<Longrightarrow> lookup loc t' = Some (File c)"
proof (induction loc arbitrary: t t')
  case Nil
  then show ?case by (cases t) auto
next
  case (Cons x xs)
  then show ?case
    by (cases t) (auto simp: map_of_setEntry split: option.splits if_splits)
qed

lemma store_exists: "lookup loc t = Some (File c0) \<Longrightarrow> \<exists>t'. store loc c t = Some t'"
proof (induction loc arbitrary: t)
  case Nil
  then show ?case by auto
next
  case (Cons x xs)
  then show ?case
    by (cases t) (fastforce split: option.splits)+
qed

text \<open>Replacing the content of a file changes the kind of no node.\<close>

lemma store_kind:
  assumes "store loc c t = Some t'" and "lookup loc t = Some (File c0)"
  shows "(lookup l t' = None) = (lookup l t = None) \<and> isDirAt t' l = isDirAt t l"
  using assms
proof (induction loc arbitrary: t t' l)
  case Nil
  then show ?case by (cases t; cases l) (auto simp: isDirAt_def)
next
  case (Cons x xs)
  from Cons.prems obtain es m m' where t: "t = Dir es" and m: "map_of es x = Some m"
    and m': "store xs c m = Some m'" and t': "t' = Dir (setEntry x m' es)"
    and f: "lookup xs m = Some (File c0)"
    by (cases t) (auto split: option.splits)
  show ?case
  proof (cases l)
    case Nil
    then show ?thesis using t t' by (simp add: isDirAt_def)
  next
    case (Cons y ys)
    show ?thesis
    proof (cases "y = x")
      case True
      from Cons.IH[OF m' f, of ys] show ?thesis
        using t t' m True Cons by (simp add: isDirAt_def map_of_setEntry)
    next
      case False
      then show ?thesis using t t' Cons by (simp add: isDirAt_def map_of_setEntry)
    qed
  qed
qed

lemma walk_store:
  assumes "store loc c t = Some t'" and "lookup loc t = Some (File c0)"
  shows "walk t' l xs = walk t l xs"
  using store_kind[OF assms] by (induction xs arbitrary: l) auto

lemma readFileSync_File:
  "readFileSync fs p = Inr c \<Longrightarrow>
     \<exists>loc. locate fs p = Some loc \<and> lookup loc (tree fs) = Some (File c)"
  by (auto simp: readFileSync_def nodeAt_def split: option.splits node.splits)

lemma write_then_read:
  assumes "readFileSync fs p = Inr c0" and "writable e p"
  shows "\<exists>fs'. writeFileSync e fs p c = Inr fs' \<and> readFileSync fs' p = Inr c"
proof -
  from readFileSync_File[OF assms(1)] obtain loc where
    l: "locate fs p = Some loc" and f: "lookup loc (tree fs) = Some (File c0)" by blast
  from store_exists[OF f] obtain t' where st: "store loc c (tree fs) = Some t'" by blast
  have w: "writeFileSync e fs p c = Inr (fs\<lparr>tree := t'\<rparr>)"
    using assms(2) l st by (simp add: writeFileSync_def target_def)
  have "locate (fs\<lparr>tree := t'\<rparr>) p = Some loc"
    using l walk_store[OF st f] by (simp add: locate_def startOf_def split: path.splits)
  then have "readFileSync (fs\<lparr>tree := t'\<rparr>) p = Inr c"
    using lookup_store[OF st] by (simp add: readFileSync_def nodeAt_def)
  with w show ?thesis by blast
qed

section \<open>One attempt and the retry loop\<close>

declare reviewLoop.simps [simp del]
declare reviewLoop_legacy.simps [simp del]

lemma tryReview_rejected:
  assumes "\<not> truthyText (fst (tryReview e rp f sc rc s))"
  shows "snd (tryReview e rp f sc rc s) = s\<lparr>requests := requests s @ [(sc, rc)]\<rparr>"
  using assms
  by (auto simp: tryReview_def sendToClaudeForReview_def Let_def
      split: option.splits sum.splits json.splits if_splits)

lemma tryReview_fails:
  assumes "attemptFails e (length (requests s)) sc rc"
  shows "\<not> truthyText (fst (tryReview e rp f sc rc s))"
  using assms
  by (auto simp: tryReview_def sendToClaudeForReview_def attemptFails_def transportFailure_def
      unparseable_def truthyText_def split: option.splits)

lemma tryReview_declined:
  assumes "service e (length (requests s)) sc rc = Some t" "t \<noteq> []"
    "JSON_parse e t = Some (JObj kvs)" "\<not> truthy (map_of kvs ''newSpecContent'')"
  shows "tryReview e rp f sc rc s =
    (Some t, updateReport e rp
       (s\<lparr>requests := requests s @ [(sc, rc)], pf_skipped := pf_skipped s @ [specFilePath f]\<rparr>))"
  using assms
  by (simp add: tryReview_def sendToClaudeForReview_def truthyText_def)

lemma tryReview_accepted:
  assumes "service e (length (requests s)) sc rc = Some t" "t \<noteq> []"
    "JSON_parse e t = Some (JObj kvs)" "map_of kvs ''newSpecContent'' = Some (JStr c)" "c \<noteq> []"
    "writeFileSync e (disk s) (specFilePath f) (if endsWith c nl then c else c @ nl) = Inr d"
  shows "tryReview e rp f sc rc s =
    (Some t, updateReport e rp
       (s\<lparr>requests := requests s @ [(sc, rc)], disk := d,
          pf_success := pf_success s @ [specFilePath f]\<rparr>))"
  using assms
  by (simp add: tryReview_def sendToClaudeForReview_def truthyText_def Let_def)

lemma reviewLoop_exit:
  "\<not> (retries < maxRetries \<and> \<not> truthyText r) \<Longrightarrow> reviewLoop e rp f sc rc retries r s = (r, s)"
  by (subst reviewLoop.simps) auto

lemma reviewLoop_accept:
  assumes "retries < maxRetries" "\<not> truthyText r" "truthyText (fst (tryReview e rp f sc rc s))"
  shows "reviewLoop e rp f sc rc retries r s = tryReview e rp f sc rc s"
  using assms
  by (subst reviewLoop.simps) (auto simp: reviewLoop_exit split: prod.splits)

lemma reviewLoop_retry:
  assumes "retries < maxRetries" "\<not> truthyText r" "\<not> truthyText (fst (tryReview e rp f sc rc s))"
    "retries + 1 < maxRetries"
  shows "reviewLoop e rp f sc rc retries r s =
    reviewLoop e rp f sc rc (retries + 1) (fst (tryReview e rp f sc rc s))
      (s\<lparr>requests := requests s @ [(sc, rc)], delays := delays s @ [1000 * (retries + 1)]\<rparr>)"
  using assms tryReview_rejected[OF assms(3)]
  by (subst reviewLoop.simps) (auto split: prod.splits)

lemma reviewLoop_exhaust:
  assumes "retries < maxRetries" "\<not> truthyText r" "\<not> truthyText (fst (tryReview e rp f sc rc s))"
    "\<not> retries + 1 < maxRetries"
  shows "reviewLoop e rp f sc rc retries r s =
    (fst (tryReview e rp f sc rc s),
     updateReport e rp
       (s\<lparr>requests := requests s @ [(sc, rc)],
          pf_error := pf_error s @ [(specFileName f, NoResponseAfter maxRetries)]\<rparr>))"
  using assms tryReview_rejected[OF assms(3)]
  by (subst reviewLoop.simps) (auto simp: reviewLoop_exit split: prod.splits)

lemma reviewLoop_failures:
  assumes "\<forall>k<j. attemptFails e (length (requests s) + k) sc rc"
    and "retries + j < maxRetries" and "\<not> truthyText r"
  shows "\<exists>r'. \<not> truthyText r' \<and>
    reviewLoop e rp f sc rc retries r s =
    reviewLoop e rp f sc rc (retries + j) r'
      (s\<lparr>requests := requests s @ replicate j (sc, rc),
         delays := delays s @ map (\<lambda>k. 1000 * k) [Suc retries..<Suc (retries + j)]\<rparr>)"
  using assms
proof (induction j arbitrary: retries r s)
  case 0
  then show ?case by auto
next
  case (Suc j)
  let ?s1 = "s\<lparr>requests := requests s @ [(sc, rc)], delays := delays s @ [1000 * (retries + 1)]\<rparr>"
  let ?r1 = "fst (tryReview e rp f sc rc s)"
  from Suc.prems(1) have f0: "attemptFails e (length (requests s)) sc rc"
    by (metis add.right_neutral zero_less_Suc)
  then have rej: "\<not> truthyText ?r1" by (rule tryReview_fails)
  have step: "reviewLoop e rp f sc rc retries r s = reviewLoop e rp f sc rc (retries + 1) ?r1 ?s1"
    using Suc.prems(2,3) rej by (intro reviewLoop_retry) auto
  have later: "\<forall>k<j. attemptFails e (length (requests ?s1) + k) sc rc"
    using Suc.prems(1) by (auto simp: Suc_less_eq2)
  from Suc.IH[OF later _ rej, of "retries + 1"] Suc.prems(2)
  obtain r' where r': "\<not> truthyText r'"
    and eq: "reviewLoop e rp f sc rc (retries + 1) ?r1 ?s1 =
       reviewLoop e rp f sc rc (retries + 1 + j) r'
        (?s1\<lparr>requests := requests ?s1 @ replicate j (sc, rc),
            delays := delays ?s1 @ map (\<lambda>k. 1000 * k) [Suc (retries + 1)..<Suc (retries + 1 + j)]\<rparr>)"
    by auto
  have "(sc, rc) # replicate j (sc, rc) = replicate (Suc j) (sc, rc)" by simp
  moreover have "(1000 + 1000 * retries) # map (\<lambda>k. 1000 * k) [Suc (Suc retries)..<Suc (Suc (retries + j))]
     = map (\<lambda>k. 1000 * k) [Suc retries..<Suc (retries + Suc j)]"
    by (simp add: upt_conv_Cons)
  ultimately show ?case
    using r' step eq by (auto simp del: replicate.simps upt_Suc)
qed

lemma reviewLoop_failures0:
  assumes "\<forall>k<j. attemptFails e (length (requests s) + k) sc rc" and "j < maxRetries"
  shows "\<exists>r'. \<not> truthyText r' \<and>
    reviewLoop e rp f sc rc 0 None s =
    reviewLoop e rp f sc rc j r'
      (s\<lparr>requests := requests s @ replicate j (sc, rc),
         delays := delays s @ map (\<lambda>k. 1000 * k) [1..<Suc j]\<rparr>)"
proof -
  have n: "\<not> truthyText None" by (simp add: truthyText_def)
  from reviewLoop_failures[OF assms(1) _ n, of 0 rp f] assms(2) show ?thesis by simp
qed

lemma reviewWithRetries_exhausted:
  assumes "\<forall>k<3. attemptFails e (length (requests s) + k) sc rc"
  shows "reviewWithRetries e rp f sc rc s =
    updateReport e rp
      ((updateReport e rp
         (s\<lparr>delays := delays s @ [1000, 2000],
            requests := requests s @ replicate 3 (sc, rc),
            pf_error := pf_error s @ [(specFileName f, NoResponseAfter maxRetries)]\<rparr>))
       \<lparr>pf_error := pf_error s @ [(specFileName f, NoResponseAfter maxRetries),
                                  (specFileName f, NoResponseAfter maxRetries)]\<rparr>)"
proof -
  have pre: "\<forall>k<2. attemptFails e (length (requests s) + k) sc rc" using assms by auto
  have j2: "2 < maxRetries" by (simp add: maxRetries_def)
  from reviewLoop_failures0[OF pre j2]
  obtain r' where r': "\<not> truthyText r'"
    and eq: "reviewLoop e rp f sc rc 0 None s =
      reviewLoop e rp f sc rc 2 r'
        (s\<lparr>requests := requests s @ replicate 2 (sc, rc),
           delays := delays s @ map (\<lambda>k. 1000 * k) [1..<Suc 2]\<rparr>)"
    by blast
  let ?s2 = "s\<lparr>requests := requests s @ replicate 2 (sc, rc),
           delays := delays s @ map (\<lambda>k. 1000 * k) [1..<Suc 2]\<rparr>"
  have "attemptFails e (length (requests ?s2)) sc rc" using assms[rule_format, of 2] by simp
  then have rej: "\<not> truthyText (fst (tryReview e rp f sc rc ?s2))" by (rule tryReview_fails)
  have "reviewLoop e rp f sc rc 2 r' ?s2 =
    (fst (tryReview e rp f sc rc ?s2),
     updateReport e rp
       (?s2\<lparr>requests := requests ?s2 @ [(sc, rc)],
          pf_error := pf_error ?s2 @ [(specFileName f, NoResponseAfter maxRetries)]\<rparr>))"
    using r' rej by (intro reviewLoop_exhaust) (auto simp: maxRetries_def)
  moreover have "[1..<Suc 2] = [1, 2]" by (simp add: upt_conv_Cons)
  moreover have "replicate 2 (sc, rc) @ [(sc, rc)] = replicate 3 (sc, rc)"
    by (simp add: numeral_3_eq_3 numeral_2_eq_2)
  ultimately show ?thesis
    using eq rej by (simp add: reviewWithRetries_def updateReport_def)
qed

lemma reviewWithRetries_declined:
  assumes "j < 3" "\<forall>k<j. attemptFails e (length (requests s) + k) sc rc"
    "service e (length (requests s) + j) sc rc = Some t" "t \<noteq> []"
    "JSON_parse e t = Some (JObj kvs)" "\<not> truthy (map_of kvs ''newSpecContent'')"
  shows "reviewWithRetries e rp f sc rc s =
    updateReport e rp
      (s\<lparr>delays := delays s @ map (\<lambda>k. 1000 * k) [1..<Suc j],
         requests := requests s @ replicate (Suc j) (sc, rc),
         pf_skipped := pf_skipped s @ [specFilePath f]\<rparr>)"
proof -
  have jm: "j < maxRetries" using assms(1) by (simp add: maxRetries_def)
  from reviewLoop_failures0[OF assms(2) jm]
  obtain r' where r': "\<not> truthyText r'"
    and eq: "reviewLoop e rp f sc rc 0 None s =
      reviewLoop e rp f sc rc j r'
        (s\<lparr>requests := requests s @ replicate j (sc, rc),
           delays := delays s @ map (\<lambda>k. 1000 * k) [1..<Suc j]\<rparr>)"
    by blast
  let ?sj = "s\<lparr>requests := requests s @ replicate j (sc, rc),
           delays := delays s @ map (\<lambda>k. 1000 * k) [1..<Suc j]\<rparr>"
  have tr: "tryReview e rp f sc rc ?sj =
    (Some t, updateReport e rp
       (?sj\<lparr>requests := requests ?sj @ [(sc, rc)], pf_skipped := pf_skipped ?sj @ [specFilePath f]\<rparr>))"
    using assms(3-6) by (intro tryReview_declined) auto
  have t: "truthyText (Some t)" using assms(4) by (simp add: truthyText_def)
  have "reviewLoop e rp f sc rc j r' ?sj = tryReview e rp f sc rc ?sj"
    using r' assms(1) t tr by (intro reviewLoop_accept) (auto simp: maxRetries_def)
  moreover have "replicate j (sc, rc) @ [(sc, rc)] = replicate (Suc j) (sc, rc)"
    by (simp add: replicate_append_same)
  ultimately show ?thesis
    using eq tr t by (simp add: reviewWithRetries_def del: replicate.simps upt_Suc)
qed

lemma reviewWithRetries_accepted:
  assumes "j < 3" "\<forall>k<j. attemptFails e (length (requests s) + k) sc rc"
    "service e (length (requests s) + j) sc rc = Some t" "t \<noteq> []"
    "JSON_parse e t = Some (JObj kvs)" "map_of kvs ''newSpecContent'' = Some (JStr c)" "c \<noteq> []"
    "writeFileSync e (disk s) (specFilePath f) (if endsWith c nl then c else c @ nl) = Inr d"
  shows "reviewWithRetries e rp f sc rc s =
    updateReport e rp
      (s\<lparr>delays := delays s @ map (\<lambda>k. 1000 * k) [1..<Suc j],
         requests := requests s @ replicate (Suc j) (sc, rc),
         disk := d,
         pf_success := pf_success s @ [specFilePath f]\<rparr>)"
proof -
  have jm: "j < maxRetries" using assms(1) by (simp add: maxRetries_def)
  from reviewLoop_failures0[OF assms(2) jm]
  obtain r' where r': "\<not> truthyText r'"
    and eq: "reviewLoop e rp f sc rc 0 None s =
      reviewLoop e rp f sc rc j r'
        (s\<lparr>requests := requests s @ replicate j (sc, rc),
           delays := delays s @ map (\<lambda>k. 1000 * k) [1..<Suc j]\<rparr>)"
    by blast
  let ?sj = "s\<lparr>requests := requests s @ replicate j (sc, rc),
           delays := delays s @ map (\<lambda>k. 1000 * k) [1..<Suc j]\<rparr>"
  have tr: "tryReview e rp f sc rc ?sj =
    (Some t, updateReport e rp
       (?sj\<lparr>requests := requests ?sj @ [(sc, rc)], disk := d,
           pf_success := pf_success ?sj @ [specFilePath f]\<rparr>))"
    using assms(3-8) by (intro tryReview_accepted) auto
  have t: "truthyText (Some t)" using assms(4) by (simp add: truthyText_def)
  have "reviewLoop e rp f sc rc j r' ?sj = tryReview e rp f sc rc ?sj"
    using r' assms(1) t tr by (intro reviewLoop_accept) (auto simp: maxRetries_def)
  moreover have "replicate j (sc, rc) @ [(sc, rc)] = replicate (Suc j) (sc, rc)"
    by (simp add: replicate_append_same)
  ultimately show ?thesis
    using eq tr t by (simp add: reviewWithRetries_def del: replicate.simps upt_Suc)
qed

lemma updateReport_fields [simp]:
  "disk (updateReport e rp s) = disk s"
  "pf_success (updateReport e rp s) = pf_success s"
  "pf_error (updateReport e rp s) = pf_error s"
  "pf_skipped (updateReport e rp s) = pf_skipped s"
  "requests (updateReport e rp s) = requests s"
  "delays (updateReport e rp s) = delays s"
  by (simp_all add: updateReport_def)

section \<open>The retry bound\<close>

text \<open>
  C2. A record whose files are read and whose three attempts all fail, each by a
  transport failure or by a reply that does not parse, sends exactly three requests
  to the review service, all with the same contents, and is then recorded as failed
  with the message of the exhausted retries; nothing is written and no other list
  changes. (The entry is appended by the last pass of the loop and again by the check
  that follows the loop.)
\<close>

theorem retry_bound:
  assumes "readFileSync (disk s) (specFilePath f) = Inr c"
    and "readRelated (disk s) f = Inr rc"
    and "\<forall>k<3. attemptFails e (length (requests s) + k) (sanitize c) rc"
  shows "requests (processRecord e rp f s) = requests s @ replicate 3 (sanitize c, rc)
    \<and> pf_error (processRecord e rp f s) =
        pf_error s @ [(specFileName f, NoResponseAfter 3), (specFileName f, NoResponseAfter 3)]
    \<and> pf_success (processRecord e rp f s) = pf_success s
    \<and> pf_skipped (processRecord e rp f s) = pf_skipped s
    \<and> disk (processRecord e rp f s) = disk s"
proof -
  have "processRecord e rp f s = reviewWithRetries e rp f (sanitize c) rc s"
    using assms(1,2) by (simp add: processRecord_def)
  then show ?thesis
    using reviewWithRetries_exhausted[OF assms(3)]
    by (simp add: maxRetries_def del: replicate.simps)
qed

theorem retry_bound_witness:
  "readFileSync (disk (initState projTree)) (specFilePath specC) = Inr ''test c''
   \<and> readRelated (disk (initState projTree)) specC = Inr None
   \<and> attemptFails (scriptedEnv [None, Some ''not json'', Some []]) 0 ''test c'' None
   \<and> attemptFails (scriptedEnv [None, Some ''not json'', Some []]) 1 ''test c'' None
   \<and> attemptFails (scriptedEnv [None, Some ''not json'', Some []]) 2 ''test c'' None
   \<and> requests (processRecord (scriptedEnv [None, Some ''not json'', Some []]) reportAt specC
        (initState projTree)) = replicate 3 (''test c'', None)
   \<and> length (pf_error (processRecord (scriptedEnv [None, Some ''not json'', Some []]) reportAt specC
        (initState projTree))) = 2"
proof -
  have h1: "readFileSync (disk (initState projTree)) (specFilePath specC) = Inr ''test c''"
    by (simp add: readFileSync_def nodeAt_def locate_def startOf_def isDirAt_def
        initState_def projTree_def specC_def)
  have h2: "readRelated (disk (initState projTree)) specC = Inr None"
    by (simp add: readRelated_def specC_def)
  have h3: "\<forall>k<3. attemptFails (scriptedEnv [None, Some ''not json'', Some []])
         (length (requests (initState projTree)) + k) (sanitize ''test c'') None"
    by (auto simp: attemptFails_def transportFailure_def unparseable_def scriptedEnv_def
        scripted_def parseKnown_def truthyText_def initState_def less_Suc_eq numeral_3_eq_3)
  have sn: "sanitize ''test c'' = ''test c''"
    by (simp add: sanitize_def printable_def)
  have h4: "attemptFails (scriptedEnv [None, Some ''not json'', Some []]) 0 ''test c'' None
      \<and> attemptFails (scriptedEnv [None, Some ''not json'', Some []]) 1 ''test c'' None
      \<and> attemptFails (scriptedEnv [None, Some ''not json'', Some []]) 2 ''test c'' None"
    using h3 by (simp add: sn initState_def)
  show ?thesis
    using retry_bound[OF h1 h2 h3, of reportAt] h1 h2 h4
    by (simp add: sn initState_def)
qed

section \<open>A reply without content\<close>

text \<open>
  C4. When the files of a record are read and, after \<open>j < 3\<close> failed attempts, the
  review service returns a text that parses as a JSON object whose \<open>newSpecContent\<close>
  is absent or false as a condition (the empty text, \<open>null\<close>, \<open>false\<close>, \<open>0\<close>), the
  record's path is appended to the skipped list and to no other list, the file tree is
  unchanged, and no request follows that reply: the record has sent \<open>j + 1\<close> requests
  in all, one when the reply comes on the first attempt.
\<close>

theorem declined_is_skipped:
  assumes "readFileSync (disk s) (specFilePath f) = Inr c"
    and "readRelated (disk s) f = Inr rc"
    and "j < 3"
    and "\<forall>k<j. attemptFails e (length (requests s) + k) (sanitize c) rc"
    and "service e (length (requests s) + j) (sanitize c) rc = Some t"
    and "t \<noteq> []"
    and "JSON_parse e t = Some (JObj kvs)"
    and "\<not> truthy (map_of kvs ''newSpecContent'')"
  shows "pf_skipped (processRecord e rp f s) = pf_skipped s @ [specFilePath f]
    \<and> pf_success (processRecord e rp f s) = pf_success s
    \<and> pf_error (processRecord e rp f s) = pf_error s
    \<and> disk (processRecord e rp f s) = disk s
    \<and> requests (processRecord e rp f s) = requests s @ replicate (Suc j) (sanitize c, rc)
    \<and> delays (processRecord e rp f s) = delays s @ map (\<lambda>k. 1000 * k) [1..<Suc j]"
proof -
  have "processRecord e rp f s = reviewWithRetries e rp f (sanitize c) rc s"
    using assms(1,2) by (simp add: processRecord_def)
  then show ?thesis
    using reviewWithRetries_declined[OF assms(3-8)]
    by (simp del: replicate.simps upt_Suc)
qed

theorem declined_is_skipped_witness:
  "readFileSync (disk (initState projTree)) (specFilePath specA) = Inr ''test a''
   \<and> readRelated (disk (initState projTree)) specA = Inr (Some ''code a'')
   \<and> attemptFails (scriptedEnv [None, Some ''{analysis:none}'']) 0 ''test a'' (Some ''code a'')
   \<and> service (scriptedEnv [None, Some ''{analysis:none}'']) 1 ''test a'' (Some ''code a'')
        = Some ''{analysis:none}''
   \<and> JSON_parse (scriptedEnv [None, Some ''{analysis:none}'']) ''{analysis:none}''
        = Some (JObj [(''analysis'', JStr ''none'')])
   \<and> \<not> truthy (map_of [(''analysis'', JStr ''none'')] ''newSpecContent'')
   \<and> pf_skipped (processRecord (scriptedEnv [None, Some ''{analysis:none}'']) reportAt specA
        (initState projTree)) = [Rel [''proj'', ''a.spec.js'']]
   \<and> pf_success (processRecord (scriptedEnv [None, Some ''{analysis:none}'']) reportAt specA
        (initState projTree)) = []
   \<and> pf_error (processRecord (scriptedEnv [None, Some ''{analysis:none}'']) reportAt specA
        (initState projTree)) = []
   \<and> disk (processRecord (scriptedEnv [None, Some ''{analysis:none}'']) reportAt specA
        (initState projTree)) = projTree
   \<and> requests (processRecord (scriptedEnv [None, Some ''{analysis:none}'']) reportAt specA
        (initState projTree)) = [(''test a'', Some ''code a''), (''test a'', Some ''code a'')]
   \<and> delays (processRecord (scriptedEnv [None, Some ''{analysis:none}'']) reportAt specA
        (initState projTree)) = [1000]"
proof -
  let ?e = "scriptedEnv [None, Some ''{analysis:none}'']"
  let ?s = "initState projTree"
  have sa: "sanitize ''test a'' = ''test a''" and sc: "sanitize ''code a'' = ''code a''"
    by (simp_all add: sanitize_def printable_def)
  have h1: "readFileSync (disk ?s) (specFilePath specA) = Inr ''test a''"
    by (simp add: readFileSync_def nodeAt_def locate_def startOf_def isDirAt_def
        initState_def projTree_def specA_def)
  have h2: "readRelated (disk ?s) specA = Inr (Some ''code a'')"
    by (simp add: readRelated_def readFileSync_def nodeAt_def locate_def startOf_def
        isDirAt_def initState_def projTree_def specA_def sc)
  have h3: "(1::nat) < 3" by simp
  have f0: "attemptFails ?e 0 ''test a'' (Some ''code a'')"
    by (simp add: attemptFails_def transportFailure_def scriptedEnv_def scripted_def
        truthyText_def)
  have h4: "\<forall>k<1. attemptFails ?e (length (requests ?s) + k) (sanitize ''test a'') (Some ''code a'')"
    using f0 by (simp add: sa initState_def)
  have h5': "service ?e 1 ''test a'' (Some ''code a'') = Some ''{analysis:none}''"
    by (simp add: scriptedEnv_def scripted_def)
  have h5: "service ?e (length (requests ?s) + 1) (sanitize ''test a'') (Some ''code a'')
      = Some ''{analysis:none}''"
    using h5' by (simp add: sa initState_def)
  have h6: "''{analysis:none}'' \<noteq> []" by simp
  have h7: "JSON_parse ?e ''{analysis:none}'' = Some (JObj [(''analysis'', JStr ''none'')])"
    by (simp add: scriptedEnv_def parseKnown_def)
  have h8: "\<not> truthy (map_of [(''analysis'', JStr ''none'')] ''newSpecContent'')" by simp
  show ?thesis
    using declined_is_skipped[OF h1 h2 h3 h4 h5 h6 h7 h8, of reportAt] h1 h2 f0 h5' h7 h8
    by (simp add: sa initState_def specA_def)
qed

section \<open>The trailing line terminator\<close>

lemma endsWith_iff: "endsWith s t = (\<exists>u. s = u @ t)"
proof
  assume "endsWith s t"
  then have "s = take (length s - length t) s @ t"
    by (metis append_take_drop_id endsWith_def)
  then show "\<exists>u. s = u @ t" ..
next
  assume "\<exists>u. s = u @ t"
  then show "endsWith s t" by (auto simp: endsWith_def)
qed

lemma endsWith_nl_nl_append: "endsWith (c @ nl) (nl @ nl) = endsWith c nl"
proof -
  have "(\<exists>u. c @ nl = u @ nl @ nl) = (\<exists>u. c = u @ nl)"
    by (metis append.assoc append_same_eq)
  then show ?thesis by (simp add: endsWith_iff)
qed

lemma endsWith_longer: "endsWith c (nl @ nl) \<Longrightarrow> endsWith c nl"
  by (metis append.assoc endsWith_iff)

text \<open>
  C3, as amended. When the files of a record are read, the specification file can be
  written and an attempt returns a JSON object whose \<open>newSpecContent\<close> is a non-empty
  text \<open>c\<close>, the specification file afterwards holds \<open>c\<close> itself if \<open>c\<close> ends with
  a line terminator and \<open>c\<close> followed by one line terminator otherwise. So the written
  text always ends with a line terminator; it ends with exactly one if and only if
  \<open>c\<close> does not end with two; and for \<open>c = x @ nl\<close> the file holds exactly
  \<open>x @ nl\<close>.
\<close>

theorem written_content_newline:
  assumes "readFileSync (disk s) (specFilePath f) = Inr c0"
    and "readRelated (disk s) f = Inr rc"
    and "j < 3"
    and "\<forall>k<j. attemptFails e (length (requests s) + k) (sanitize c0) rc"
    and "service e (length (requests s) + j) (sanitize c0) rc = Some t"
    and "t \<noteq> []"
    and "JSON_parse e t = Some (JObj kvs)"
    and "map_of kvs ''newSpecContent'' = Some (JStr c)"
    and "c \<noteq> []"
    and "writable e (specFilePath f)"
  shows "readFileSync (disk (processRecord e rp f s)) (specFilePath f)
           = Inr (if endsWith c nl then c else c @ nl)
    \<and> endsWith (if endsWith c nl then c else c @ nl) nl
    \<and> endsWithOneNewline (if endsWith c nl then c else c @ nl) = (\<not> endsWith c (nl @ nl))
    \<and> (\<forall>x. c = x @ nl \<longrightarrow>
          readFileSync (disk (processRecord e rp f s)) (specFilePath f) = Inr (x @ nl))
    \<and> pf_success (processRecord e rp f s) = pf_success s @ [specFilePath f]"
proof -
  let ?w = "if endsWith c nl then c else c @ nl"
  have pr: "processRecord e rp f s = reviewWithRetries e rp f (sanitize c0) rc s"
    using assms(1,2) by (simp add: processRecord_def)
  from write_then_read[OF assms(1) assms(10)]
  obtain d where wr: "writeFileSync e (disk s) (specFilePath f) ?w = Inr d"
    and rdd: "readFileSync d (specFilePath f) = Inr ?w" by blast
  have dk: "disk (processRecord e rp f s) = d"
    and su: "pf_success (processRecord e rp f s) = pf_success s @ [specFilePath f]"
    using reviewWithRetries_accepted[OF assms(3-9) wr] pr by simp_all
  have rd: "readFileSync (disk (processRecord e rp f s)) (specFilePath f) = Inr ?w"
    using rdd dk by simp
  have e1: "endsWith ?w nl" by (simp add: endsWith_append_same)
  have e2: "endsWithOneNewline ?w = (\<not> endsWith c (nl @ nl))"
    using endsWith_longer[of c]
    by (auto simp: endsWithOneNewline_def endsWith_append_same endsWith_nl_nl_append)
  have e3: "\<forall>x. c = x @ nl \<longrightarrow>
          readFileSync (disk (processRecord e rp f s)) (specFilePath f) = Inr (x @ nl)"
    using rd by (auto simp: endsWith_append_same)
  show ?thesis using rd e1 e2 e3 su by blast
qed

theorem written_content_newline_witness:
  "readFileSync (disk (initState projTree)) (specFilePath specC) = Inr ''test c''
   \<and> readRelated (disk (initState projTree)) specC = Inr None
   \<and> attemptFails (scriptedEnv [Some ''not json'', Some ''{newSpecContent:X}'']) 0 ''test c'' None
   \<and> service (scriptedEnv [Some ''not json'', Some ''{newSpecContent:X}'']) 1 ''test c'' None
        = Some ''{newSpecContent:X}''
   \<and> JSON_parse (scriptedEnv [Some ''not json'', Some ''{newSpecContent:X}''])
        ''{newSpecContent:X}'' = Some (JObj [(''newSpecContent'', JStr ''X'')])
   \<and> writable (scriptedEnv [Some ''not json'', Some ''{newSpecContent:X}'']) (specFilePath specC)
   \<and> readFileSync
        (disk (processRecord (scriptedEnv [Some ''not json'', Some ''{newSpecContent:X}''])
           reportAt specC (initState projTree)))
        (specFilePath specC) = Inr ''X\<newline>''
   \<and> endsWithOneNewline ''X\<newline>''"
proof -
  let ?e = "scriptedEnv [Some ''not json'', Some ''{newSpecContent:X}'']"
  let ?s = "initState projTree"
  have sn: "sanitize ''test c'' = ''test c''"
    by (simp add: sanitize_def printable_def)
  have h1: "readFileSync (disk ?s) (specFilePath specC) = Inr ''test c''"
    by (simp add: readFileSync_def nodeAt_def locate_def startOf_def isDirAt_def
        initState_def projTree_def specC_def)
  have h2: "readRelated (disk ?s) specC = Inr None"
    by (simp add: readRelated_def specC_def)
  have h3: "(1::nat) < 3" by simp
  have f0: "attemptFails ?e 0 ''test c'' None"
    by (simp add: attemptFails_def transportFailure_def unparseable_def scriptedEnv_def
        scripted_def parseKnown_def truthyText_def)
  have h4: "\<forall>k<1. attemptFails ?e (length (requests ?s) + k) (sanitize ''test c'') None"
    using f0 by (simp add: sn initState_def)
  have h5': "service ?e 1 ''test c'' None = Some ''{newSpecContent:X}''"
    by (simp add: scriptedEnv_def scripted_def)
  have h5: "service ?e (length (requests ?s) + 1) (sanitize ''test c'') None
      = Some ''{newSpecContent:X}''"
    using h5' by (simp add: sn initState_def)
  have h6: "''{newSpecContent:X}'' \<noteq> []" by simp
  have h7: "JSON_parse ?e ''{newSpecContent:X}'' = Some (JObj [(''newSpecContent'', JStr ''X'')])"
    by (simp add: scriptedEnv_def parseKnown_def)
  have h8: "map_of [(''newSpecContent'', JStr ''X'')] ''newSpecContent'' = Some (JStr ''X'')"
    by simp
  have h9: "''X'' \<noteq> []" by simp
  have h10: "writable ?e (specFilePath specC)" by (simp add: scriptedEnv_def)
  have one: "endsWithOneNewline ''X\<newline>''"
    by (simp add: endsWithOneNewline_def endsWith_def nl_def)
  have w: "(if endsWith ''X'' nl then ''X'' else ''X'' @ nl) = ''X\<newline>''"
    by (simp add: endsWith_def nl_def)
  show ?thesis
    using written_content_newline[OF h1 h2 h3 h4 h5 h6 h7 h8 h9 h10, of reportAt]
      h1 h2 f0 h5' h7 h10 one
    by (simp only: w)
qed

text \<open>
  C3 as stated fails where the returned text already ends with two line terminators:
  the accepted content \<open>X\<close> followed by two line terminators is written as it is.
\<close>

theorem doubled_newline_kept:
  "JSON_parse (scriptedEnv [Some ''{newSpecContent:X+nl+nl}'']) ''{newSpecContent:X+nl+nl}''
     = Some (JObj [(''newSpecContent'', JStr ''X\<newline>\<newline>'')])
   \<and> processRecord (scriptedEnv [Some ''{newSpecContent:X+nl+nl}'']) reportAt specC
        (initState oneSpecTree)
     = \<lparr> disk =
           \<lparr> tree = Dir [(''proj'', Dir [(''c.spec.vue'', File ''X\<newline>\<newline>'')])],
             cwd = [] \<rparr>,
         pf_success = [Rel [''proj'', ''c.spec.vue'']], pf_error = [], pf_skipped = [],
         requests = [(''test c'', None)], delays = [],
         reportWrites =
           [\<lparr> totalProcessed = 1, successfullyProcessed = 1, errors = 0, skipped = 0,
               successfulFiles = [Rel [''proj'', ''c.spec.vue'']], errorFiles = [],
               skippedFiles = [] \<rparr>] \<rparr>
   \<and> endsWith ''X\<newline>\<newline>'' (nl @ nl)
   \<and> \<not> endsWithOneNewline ''X\<newline>\<newline>''"
  by (simp add: processRecord_def reviewWithRetries_def reviewLoop.simps tryReview_def
      sendToClaudeForReview_def scriptedEnv_def scripted_def parseKnown_def truthyText_def
      readFileSync_def nodeAt_def locate_def startOf_def isDirAt_def readRelated_def
      writeFileSync_def target_def updateReport_def buildReport_def
      initState_def oneSpecTree_def specC_def sanitize_def printable_def maxRetries_def
      endsWith_def endsWithOneNewline_def nl_def Let_def)

section \<open>One entry for each record\<close>

text \<open>
  C1. A tree with one specification file, and a review service that never answers:
  discovery finds the one record, and the run ends with two entries for it in the
  error list and a report that counts two processed files. The older variant records
  the two entries as well; and when the service answers without content, the older
  variant records nothing for the record.
\<close>

theorem exhausted_record_recorded_twice:
  "findSpecFilesAndRelated oneSpecTree (Rel [''proj'']) = Inr [specC]
   \<and> main (scriptedEnv []) (Rel [''proj'']) ''simplify_report.json'' oneSpecTree
     = Completed
         \<lparr> disk = oneSpecTree,
           pf_success = [],
           pf_error = [(''c.spec.vue'', NoResponseAfter 3), (''c.spec.vue'', NoResponseAfter 3)],
           pf_skipped = [],
           requests = [(''test c'', None), (''test c'', None), (''test c'', None)],
           delays = [1000, 2000],
           reportWrites =
             [\<lparr> totalProcessed = 1, successfullyProcessed = 0, errors = 1, skipped = 0,
                 successfulFiles = [], errorFiles = [(''c.spec.vue'', NoResponseAfter 3)],
                 skippedFiles = [] \<rparr>,
              \<lparr> totalProcessed = 2, successfullyProcessed = 0, errors = 2, skipped = 0,
                 successfulFiles = [],
                 errorFiles =
                   [(''c.spec.vue'', NoResponseAfter 3), (''c.spec.vue'', NoResponseAfter 3)],
                 skippedFiles = [] \<rparr>] \<rparr>
   \<and> main_legacy (scriptedEnv []) (Rel [''proj'']) ''simplify_report.json'' oneSpecTree
     = LegacyCompleted
         \<lparr> disk = oneSpecTree,
           pf_success = [],
           pf_error = [(''c.spec.vue'', NoResponseAfter 3), (''c.spec.vue'', NoResponseAfter 3)],
           pf_skipped = [],
           requests = [(''test c'', None), (''test c'', None), (''test c'', None)],
           delays = [1000, 2000],
           reportWrites = [] \<rparr>
         (Some (LegacyReport 2 0 2 []
            [(''c.spec.vue'', NoResponseAfter 3), (''c.spec.vue'', NoResponseAfter 3)]))
   \<and> main_legacy (scriptedEnv [Some ''{analysis:none}'']) (Rel [''proj'']) ''simplify_report.json''
        oneSpecTree
     = LegacyCompleted
         \<lparr> disk = oneSpecTree, pf_success = [], pf_error = [], pf_skipped = [],
           requests = [(''test c'', None)], delays = [], reportWrites = [] \<rparr>
         (Some (LegacyReport 0 0 0 [] []))"
  by (simp add: main_def main_legacy_def findSpecFilesAndRelated_def existsSync_def nodeAt_def
      locate_def startOf_def isDirAt_def
      isSpecName_def specRecord_def resolveRelated_def relatedName_def startsWith_def join_def
      dirname_def
      processRecord_def reviewWithRetries_def reviewLoop.simps tryReview_def
      processRecord_legacy_def reviewLoop_legacy.simps tryReview_legacy_def
      buildReport_legacy_def
      sendToClaudeForReview_def scriptedEnv_def scripted_def parseKnown_def truthyText_def
      readFileSync_def readRelated_def writeFileSync_def target_def updateReport_def
      buildReport_def
      initState_def oneSpecTree_def specC_def sanitize_def printable_def maxRetries_def
      endsWith_def nl_def Let_def)

section \<open>Backoff\<close>

lemma tryReview_requests:
  "requests (snd (tryReview e rp f sc rc s)) = requests s @ [(sc, rc)]"
  by (auto simp: tryReview_def sendToClaudeForReview_def Let_def
      split: option.splits sum.splits json.splits)

lemma tryReview_delays: "delays (snd (tryReview e rp f sc rc s)) = delays s"
  by (auto simp: tryReview_def sendToClaudeForReview_def Let_def
      split: option.splits sum.splits json.splits)

lemma reviewLoop_trace:
  assumes "retries < maxRetries" "\<not> truthyText r"
  shows "\<exists>m. retries + m < maxRetries
    \<and> delays (snd (reviewLoop e rp f sc rc retries r s))
        = delays s @ map (\<lambda>k. 1000 * k) [Suc retries..<Suc (retries + m)]
    \<and> requests (snd (reviewLoop e rp f sc rc retries r s))
        = requests s @ replicate (Suc m) (sc, rc)"
  using assms
proof (induction "maxRetries - retries" arbitrary: retries r s)
  case 0
  then show ?case by simp
next
  case (Suc n)
  let ?t = "tryReview e rp f sc rc s"
  show ?case
  proof (cases "truthyText (fst ?t)")
    case True
    then have "reviewLoop e rp f sc rc retries r s = ?t"
      using Suc.prems by (intro reviewLoop_accept)
    then show ?thesis
      using Suc.prems(1) by (intro exI[of _ 0]) (simp add: tryReview_requests tryReview_delays)
  next
    case False
    show ?thesis
    proof (cases "retries + 1 < maxRetries")
      case True
      let ?s1 = "s\<lparr>requests := requests s @ [(sc, rc)], delays := delays s @ [1000 * (retries + 1)]\<rparr>"
      have step: "reviewLoop e rp f sc rc retries r s =
          reviewLoop e rp f sc rc (retries + 1) (fst ?t) ?s1"
        using Suc.prems False True by (intro reviewLoop_retry)
      have "n = maxRetries - (retries + 1)" using Suc.hyps(2) by simp
      from Suc.hyps(1)[OF this True False, of ?s1]
      obtain m where m: "retries + 1 + m < maxRetries"
        and d: "delays (snd (reviewLoop e rp f sc rc (retries + 1) (fst ?t) ?s1))
            = delays ?s1 @ map (\<lambda>k. 1000 * k) [Suc (retries + 1)..<Suc (retries + 1 + m)]"
        and q: "requests (snd (reviewLoop e rp f sc rc (retries + 1) (fst ?t) ?s1))
            = requests ?s1 @ replicate (Suc m) (sc, rc)"
        by blast
      have u: "(1000 + 1000 * retries) # map (\<lambda>k. 1000 * k) [Suc (Suc retries)..<Suc (Suc (retries + m))]
          = map (\<lambda>k. 1000 * k) [Suc retries..<Suc (retries + Suc m)]"
        by (simp add: upt_conv_Cons)
      show ?thesis
        using m d q u step
        by (intro exI[of _ "Suc m"]) (simp del: upt_Suc add: replicate_append_same)
    next
      case nomore: False
      have "reviewLoop e rp f sc rc retries r s =
        (fst ?t,
         updateReport e rp
           (s\<lparr>requests := requests s @ [(sc, rc)],
              pf_error := pf_error s @ [(specFileName f, NoResponseAfter maxRetries)]\<rparr>))"
        using Suc.prems False nomore by (intro reviewLoop_exhaust)
      then show ?thesis
        using Suc.prems(1) by (intro exI[of _ 0]) simp
    qed
  qed
qed

lemma reviewWithRetries_delays:
  "delays (reviewWithRetries e rp f sc rc s) = delays (snd (reviewLoop e rp f sc rc 0 None s))"
  by (simp add: reviewWithRetries_def split: prod.splits)

lemma reviewWithRetries_requests:
  "requests (reviewWithRetries e rp f sc rc s) = requests (snd (reviewLoop e rp f sc rc 0 None s))"
  by (simp add: reviewWithRetries_def split: prod.splits)

lemma reviewWithRetries_trace:
  "\<exists>m. m < 3
    \<and> delays (reviewWithRetries e rp f sc rc s) = delays s @ map (\<lambda>k. 1000 * k) [1..<Suc m]
    \<and> requests (reviewWithRetries e rp f sc rc s) = requests s @ replicate (Suc m) (sc, rc)"
proof -
  have "0 < maxRetries" "\<not> truthyText None" by (simp_all add: maxRetries_def truthyText_def)
  from reviewLoop_trace[OF this, of e rp f sc rc s]
  show ?thesis
    by (simp add: reviewWithRetries_delays reviewWithRetries_requests maxRetries_def
        del: replicate.simps upt_Suc)
qed

lemma reviewWithRetries_after_failures:
  assumes "\<forall>k<j. attemptFails e (length (requests s) + k) sc rc" "j < 3"
  shows "\<exists>m. j + m < 3
    \<and> delays (reviewWithRetries e rp f sc rc s) = delays s @ map (\<lambda>k. 1000 * k) [1..<Suc (j + m)]"
proof -
  have jm: "j < maxRetries" using assms(2) by (simp add: maxRetries_def)
  from reviewLoop_failures0[OF assms(1) jm]
  obtain r' where r': "\<not> truthyText r'"
    and eq: "reviewLoop e rp f sc rc 0 None s =
      reviewLoop e rp f sc rc j r'
        (s\<lparr>requests := requests s @ replicate j (sc, rc),
           delays := delays s @ map (\<lambda>k. 1000 * k) [1..<Suc j]\<rparr>)"
    by blast
  let ?sj = "s\<lparr>requests := requests s @ replicate j (sc, rc),
           delays := delays s @ map (\<lambda>k. 1000 * k) [1..<Suc j]\<rparr>"
  from reviewLoop_trace[OF jm r', of e rp f sc rc ?sj]
  obtain m where m: "j + m < maxRetries"
    and d: "delays (snd (reviewLoop e rp f sc rc j r' ?sj))
       = delays ?sj @ map (\<lambda>k. 1000 * k) [Suc j..<Suc (j + m)]"
    by blast
  have "[1..<Suc j + m] = [1..<Suc j] @ [Suc j..<Suc j + m]"
    by (rule upt_add_eq_append) simp
  then have "map (\<lambda>k. 1000 * k) [1..<Suc j] @ map (\<lambda>k. 1000 * k) [Suc j..<Suc (j + m)]
      = map (\<lambda>k. 1000 * k) [1..<Suc (j + m)]"
    by simp
  then show ?thesis
    using m d eq by (intro exI[of _ m]) (simp add: reviewWithRetries_delays maxRetries_def del: upt_Suc)
qed

text \<open>
  C8. For a record whose files are read: the delays waited for it are
  \<open>1000 * 1, \<dots>, 1000 * m\<close> milliseconds for some \<open>m < 3\<close>, where \<open>m + 1\<close>
  is the number of requests sent, so each resubmission follows exactly one delay and
  no delay follows the last attempt. After a failed first attempt the first delay is
  \<open>1000 * 1\<close>; after failed first and second attempts the delays are exactly
  \<open>1000 * 1\<close> and \<open>1000 * 2\<close>, in increasing order, whatever the third attempt
  does: no delay follows a failed third attempt.
\<close>

theorem backoff_delays:
  assumes "readFileSync (disk s) (specFilePath f) = Inr c"
    and "readRelated (disk s) f = Inr rc"
  shows "(\<exists>m. m < 3
        \<and> delays (processRecord e rp f s) = delays s @ map (\<lambda>k. 1000 * k) [1..<Suc m]
        \<and> requests (processRecord e rp f s) = requests s @ replicate (Suc m) (sanitize c, rc))
    \<and> (attemptFails e (length (requests s)) (sanitize c) rc \<longrightarrow>
         (\<exists>ds. delays (processRecord e rp f s) = delays s @ (1000 * 1) # ds))
    \<and> (attemptFails e (length (requests s)) (sanitize c) rc
        \<and> attemptFails e (length (requests s) + 1) (sanitize c) rc \<longrightarrow>
         delays (processRecord e rp f s) = delays s @ [1000 * 1, 1000 * 2])"
proof -
  have pr: "processRecord e rp f s = reviewWithRetries e rp f (sanitize c) rc s"
    using assms by (simp add: processRecord_def)
  have a: "\<exists>m. m < 3
        \<and> delays (processRecord e rp f s) = delays s @ map (\<lambda>k. 1000 * k) [1..<Suc m]
        \<and> requests (processRecord e rp f s) = requests s @ replicate (Suc m) (sanitize c, rc)"
    unfolding pr by (rule reviewWithRetries_trace)
  have b: "\<exists>ds. delays (processRecord e rp f s) = delays s @ (1000 * 1) # ds"
    if "attemptFails e (length (requests s)) (sanitize c) rc"
  proof -
    have "\<forall>k<1. attemptFails e (length (requests s) + k) (sanitize c) rc" using that by simp
    moreover have "(1::nat) < 3" by simp
    ultimately have "\<exists>m. 1 + m < 3
        \<and> delays (reviewWithRetries e rp f (sanitize c) rc s)
            = delays s @ map (\<lambda>k. 1000 * k) [1..<Suc (1 + m)]"
      by (rule reviewWithRetries_after_failures)
    then
    obtain m where d: "delays (reviewWithRetries e rp f (sanitize c) rc s)
        = delays s @ map (\<lambda>k. 1000 * k) [1..<Suc (1 + m)]"
      by blast
    have "[1..<Suc (1 + m)] = 1 # [Suc 1..<Suc (1 + m)]"
      by (rule upt_conv_Cons) simp
    with d show ?thesis unfolding pr by (simp del: upt_Suc)
  qed
  have c: "delays (processRecord e rp f s) = delays s @ [1000 * 1, 1000 * 2]"
    if "attemptFails e (length (requests s)) (sanitize c) rc
        \<and> attemptFails e (length (requests s) + 1) (sanitize c) rc"
  proof -
    have "\<forall>k<2. attemptFails e (length (requests s) + k) (sanitize c) rc"
      using that by (auto simp: less_Suc_eq numeral_2_eq_2)
    moreover have "(2::nat) < 3" by simp
    ultimately have "\<exists>m. 2 + m < 3
        \<and> delays (reviewWithRetries e rp f (sanitize c) rc s)
            = delays s @ map (\<lambda>k. 1000 * k) [1..<Suc (2 + m)]"
      by (rule reviewWithRetries_after_failures)
    then
    obtain m where m: "2 + m < 3" and d: "delays (reviewWithRetries e rp f (sanitize c) rc s)
        = delays s @ map (\<lambda>k. 1000 * k) [1..<Suc (2 + m)]"
      by blast
    from m have "m = 0" by simp
    with d show ?thesis unfolding pr by (simp add: upt_conv_Cons)
  qed
  from a b c show ?thesis by blast
qed

theorem backoff_delays_witness:
  "readFileSync (disk (initState projTree)) (specFilePath specC) = Inr ''test c''
   \<and> readRelated (disk (initState projTree)) specC = Inr None
   \<and> attemptFails
        (scriptedEnv [Some ''not json'', Some ''not json'', Some ''{newSpecContent:X+nl}''])
        0 ''test c'' None
   \<and> attemptFails
        (scriptedEnv [Some ''not json'', Some ''not json'', Some ''{newSpecContent:X+nl}''])
        1 ''test c'' None
   \<and> delays
        (processRecord
           (scriptedEnv [Some ''not json'', Some ''not json'', Some ''{newSpecContent:X+nl}''])
           reportAt specC (initState projTree)) = [1000, 2000]"
proof -
  let ?e = "scriptedEnv [Some ''not json'', Some ''not json'', Some ''{newSpecContent:X+nl}'']"
  let ?s = "initState projTree"
  have sn: "sanitize ''test c'' = ''test c''"
    by (simp add: sanitize_def printable_def)
  have h1: "readFileSync (disk ?s) (specFilePath specC) = Inr ''test c''"
    by (simp add: readFileSync_def nodeAt_def locate_def startOf_def isDirAt_def
        initState_def projTree_def specC_def)
  have h2: "readRelated (disk ?s) specC = Inr None"
    by (simp add: readRelated_def specC_def)
  have f0: "attemptFails ?e 0 ''test c'' None" and f1: "attemptFails ?e 1 ''test c'' None"
    by (simp_all add: attemptFails_def transportFailure_def unparseable_def scriptedEnv_def
        scripted_def parseKnown_def truthyText_def)
  show ?thesis
    using backoff_delays[OF h1 h2, of ?e reportAt] h1 h2 f0 f1
    by (simp add: sn initState_def)
qed

section \<open>The counts of the report\<close>

lemma buildReport_consistent: "reportConsistent (buildReport s)"
  by (simp add: reportConsistent_def buildReport_def)

lemma updateReport_reports:
  "set (reportWrites (updateReport e rp s)) \<subseteq> set (reportWrites s) \<union> {r. reportConsistent r}"
  by (auto simp: updateReport_def buildReport_consistent)

lemma tryReview_reports:
  "set (reportWrites (snd (tryReview e rp f sc rc s)))
     \<subseteq> set (reportWrites s) \<union> {r. reportConsistent r}"
  by (auto simp: tryReview_def sendToClaudeForReview_def Let_def updateReport_def
      buildReport_consistent split: option.splits sum.splits json.splits if_splits)

lemma reviewLoop_reports:
  "set (reportWrites (snd (reviewLoop e rp f sc rc retries r s)))
     \<subseteq> set (reportWrites s) \<union> {r. reportConsistent r}"
proof (induction "maxRetries - retries" arbitrary: retries r s)
  case 0
  then show ?case by (simp add: reviewLoop_exit)
next
  case (Suc n)
  let ?t = "tryReview e rp f sc rc s"
  show ?case
  proof (cases "retries < maxRetries \<and> \<not> truthyText r")
    case False
    then show ?thesis by (simp add: reviewLoop_exit)
  next
    case run: True
    show ?thesis
    proof (cases "truthyText (fst ?t)")
      case True
      then have "reviewLoop e rp f sc rc retries r s = ?t"
        using run by (intro reviewLoop_accept) auto
      then show ?thesis using tryReview_reports[of e rp f sc rc s] by simp
    next
      case False
      show ?thesis
      proof (cases "retries + 1 < maxRetries")
        case True
        let ?s1 = "s\<lparr>requests := requests s @ [(sc, rc)], delays := delays s @ [1000 * (retries + 1)]\<rparr>"
        have step: "reviewLoop e rp f sc rc retries r s =
            reviewLoop e rp f sc rc (retries + 1) (fst ?t) ?s1"
          using run False True by (intro reviewLoop_retry) auto
        have "n = maxRetries - (retries + 1)" using Suc.hyps(2) by simp
        from Suc.hyps(1)[OF this, of "fst ?t" ?s1] step show ?thesis by simp
      next
        case nomore: False
        have "reviewLoop e rp f sc rc retries r s =
          (fst ?t,
           updateReport e rp
             (s\<lparr>requests := requests s @ [(sc, rc)],
                pf_error := pf_error s @ [(specFileName f, NoResponseAfter maxRetries)]\<rparr>))"
          using run False nomore by (intro reviewLoop_exhaust) auto
        then show ?thesis
          using updateReport_reports[of e rp "s\<lparr>requests := requests s @ [(sc, rc)],
                pf_error := pf_error s @ [(specFileName f, NoResponseAfter maxRetries)]\<rparr>"]
          by simp
      qed
    qed
  qed
qed

lemma reviewWithRetries_reports:
  "set (reportWrites (reviewWithRetries e rp f sc rc s))
     \<subseteq> set (reportWrites s) \<union> {r. reportConsistent r}"
proof -
  obtain r s1 where l: "reviewLoop e rp f sc rc 0 None s = (r, s1)" by (cases "reviewLoop e rp f sc rc 0 None s")
  have s1: "set (reportWrites s1) \<subseteq> set (reportWrites s) \<union> {r. reportConsistent r}"
    using reviewLoop_reports[of e rp f sc rc 0 None s] l by simp
  show ?thesis
    using s1 updateReport_reports[of e rp
        "s1\<lparr>pf_error := pf_error s1 @ [(specFileName f, NoResponseAfter maxRetries)]\<rparr>"]
    by (auto simp: reviewWithRetries_def l)
qed

lemma processRecord_reports:
  "set (reportWrites (processRecord e rp f s))
     \<subseteq> set (reportWrites s) \<union> {r. reportConsistent r}"
  using reviewWithRetries_reports[of e rp f _ _ s]
    updateReport_reports[of e rp "s\<lparr>pf_error := pf_error s @ [(specFileName f, Thrown _)]\<rparr>"]
  by (auto simp: processRecord_def recordThrown_def Let_def split: sum.splits)

lemma processAll_reports:
  "set (reportWrites (processAll e rp fs s))
     \<subseteq> set (reportWrites s) \<union> {r. reportConsistent r}"
proof (induction fs arbitrary: s)
  case Nil
  then show ?case by simp
next
  case (Cons f fs)
  show ?case
    using Cons.IH[of "processRecord e rp f s"] processRecord_reports[of e rp f s]
    by auto
qed

text \<open>
  C6. Every content the report file has during a run, that is the report written after
  each record's outcome, has a total equal to the sum of the three other counts, and no
  negative count.
\<close>

theorem report_counts_consistent:
  assumes "main e startDir reportFileName d = Completed s"
  shows "\<forall>r \<in> set (reportWrites s).
     totalProcessed r = successfullyProcessed r + skipped r + errors r
     \<and> 0 \<le> totalProcessed r \<and> 0 \<le> successfullyProcessed r
     \<and> 0 \<le> skipped r \<and> 0 \<le> errors r"
proof -
  from assms obtain result where
    "s = processAll e (join startDir reportFileName) result (initState d)"
    by (auto simp: main_def split: if_splits sum.splits)
  then have "set (reportWrites s) \<subseteq> {r. reportConsistent r}"
    using processAll_reports[of e "join startDir reportFileName" result "initState d"]
    by (simp add: initState_def)
  then show ?thesis by (auto simp: reportConsistent_def)
qed

theorem report_counts_consistent_witness:
  "main (scriptedEnv [Some ''{analysis:none}'']) (Rel [''proj'']) ''simplify_report.json'' oneSpecTree
     = Completed
         \<lparr> disk = oneSpecTree, pf_success = [], pf_error = [],
           pf_skipped = [Rel [''proj'', ''c.spec.vue'']],
           requests = [(''test c'', None)], delays = [],
           reportWrites =
             [\<lparr> totalProcessed = 1, successfullyProcessed = 0, errors = 0, skipped = 1,
                 successfulFiles = [], errorFiles = [],
                 skippedFiles = [Rel [''proj'', ''c.spec.vue'']] \<rparr>] \<rparr>
   \<and> totalProcessed
         \<lparr> totalProcessed = 1, successfullyProcessed = 0, errors = 0, skipped = 1,
           successfulFiles = [], errorFiles = [],
           skippedFiles = [Rel [''proj'', ''c.spec.vue'']] \<rparr>
       = successfullyProcessed
           \<lparr> totalProcessed = 1, successfullyProcessed = 0, errors = 0, skipped = 1,
             successfulFiles = [], errorFiles = [],
             skippedFiles = [Rel [''proj'', ''c.spec.vue'']] \<rparr>
         + skipped
           \<lparr> totalProcessed = 1, successfullyProcessed = 0, errors = 0, skipped = 1,
             successfulFiles = [], errorFiles = [],
             skippedFiles = [Rel [''proj'', ''c.spec.vue'']] \<rparr>
         + errors
           \<lparr> totalProcessed = 1, successfullyProcessed = 0, errors = 0, skipped = 1,
             successfulFiles = [], errorFiles = [],
             skippedFiles = [Rel [''proj'', ''c.spec.vue'']] \<rparr>"
proof -
  let ?s = "\<lparr> disk = oneSpecTree, pf_success = [], pf_error = [],
           pf_skipped = [Rel [''proj'', ''c.spec.vue'']],
           requests = [(''test c'', None)], delays = [],
           reportWrites =
             [\<lparr> totalProcessed = 1, successfullyProcessed = 0, errors = 0, skipped = 1,
                 successfulFiles = [], errorFiles = [],
                 skippedFiles = [Rel [''proj'', ''c.spec.vue'']] \<rparr>] \<rparr>"
  have h: "main (scriptedEnv [Some ''{analysis:none}'']) (Rel [''proj'']) ''simplify_report.json''
      oneSpecTree = Completed ?s"
    by (simp add: main_def findSpecFilesAndRelated_def existsSync_def nodeAt_def
      locate_def startOf_def isDirAt_def
      isSpecName_def specRecord_def resolveRelated_def relatedName_def startsWith_def join_def
      dirname_def processRecord_def reviewWithRetries_def reviewLoop.simps tryReview_def
      sendToClaudeForReview_def scriptedEnv_def scripted_def parseKnown_def truthyText_def
      readFileSync_def readRelated_def updateReport_def buildReport_def
      initState_def oneSpecTree_def sanitize_def printable_def maxRetries_def
      endsWith_def Let_def)
  from report_counts_consistent[OF h] h show ?thesis by simp
qed

section \<open>Paired records in the older variant\<close>

text \<open>
  C9. In \<open>src/index.js\<close>, processing a record that has a paired file appends exactly
  one error entry for it and changes nothing else: no request is sent to the review
  service. When both files are read, the error is the \<open>TypeError\<close> of the assignment
  to the constant \<open>sanitizedRelatedContent\<close>.
\<close>

theorem legacy_paired_record_fails:
  assumes "relatedFilePath f = Some p"
  shows "(\<exists>err. processRecord_legacy e f s
            = s\<lparr>pf_error := pf_error s @ [(specFileName f, Thrown err)]\<rparr>)
    \<and> requests (processRecord_legacy e f s) = requests s
    \<and> (\<forall>c c'. readFileSync (disk s) (specFilePath f) = Inr c
          \<and> readFileSync (disk s) p = Inr c' \<longrightarrow>
          processRecord_legacy e f s
            = s\<lparr>pf_error := pf_error s @
                 [(specFileName f, Thrown (TypeError ''Assignment to constant variable.''))]\<rparr>)"
  using assms
  by (auto simp: processRecord_legacy_def recordThrown_legacy_def Let_def split: sum.splits)

theorem legacy_paired_record_fails_witness:
  "relatedFilePath specA = Some (Rel [''proj'', ''a.js''])
   \<and> readFileSync (disk (initState projTree)) (specFilePath specA) = Inr ''test a''
   \<and> readFileSync (disk (initState projTree)) (Rel [''proj'', ''a.js'']) = Inr ''code a''
   \<and> processRecord_legacy (scriptedEnv [Some ''{newSpecContent:X}'']) specA (initState projTree)
       = (initState projTree)
           \<lparr>pf_error := [(''a.spec.js'', Thrown (TypeError ''Assignment to constant variable.''))]\<rparr>
   \<and> requests (processRecord_legacy (scriptedEnv [Some ''{newSpecContent:X}'']) specA
        (initState projTree)) = []"
proof -
  have h: "relatedFilePath specA = Some (Rel [''proj'', ''a.js''])" by (simp add: specA_def)
  have r1: "readFileSync (disk (initState projTree)) (specFilePath specA) = Inr ''test a''"
    by (simp add: readFileSync_def nodeAt_def locate_def startOf_def isDirAt_def
        initState_def projTree_def specA_def)
  have r2: "readFileSync (disk (initState projTree)) (Rel [''proj'', ''a.js'']) = Inr ''code a''"
    by (simp add: readFileSync_def nodeAt_def locate_def startOf_def isDirAt_def
        initState_def projTree_def)
  from legacy_paired_record_fails[OF h, of "scriptedEnv [Some ''{newSpecContent:X}'']"
      "initState projTree"] h r1 r2
  show ?thesis by (simp add: initState_def specA_def)
qed

section \<open>A tree without specification files\<close>

lemma find_noSpec:
  "noSpecIn n \<Longrightarrow> findDir root dir n filesList = filesList"
  "noSpecInItems es \<Longrightarrow> findItems root dir es filesList = filesList"
  by (induction root dir n filesList and root dir es filesList rule: findDir_findItems.induct)
    (auto split: node.splits)

text \<open>
  C7. When the start directory is a directory under which no regular file has a
  specification suffix, discovery returns the empty list without an error and the run
  completes with every list empty, so every count a report would show is zero; but the
  run has written no report, since \<open>updateReport\<close> is called only from the processing
  of a record. The older variant writes the report with all counts zero.
\<close>

theorem no_specs_no_report:
  assumes "nodeAt d startDir = Some (Dir es)" and "noSpecInItems es"
  shows "findSpecFilesAndRelated d startDir = Inr []
    \<and> main e startDir reportFileName d = Completed (initState d)
    \<and> reportWrites (initState d) = []
    \<and> buildReport (initState d)
        = \<lparr> totalProcessed = 0, successfullyProcessed = 0, errors = 0, skipped = 0,
            successfulFiles = [], errorFiles = [], skippedFiles = [] \<rparr>
    \<and> main_legacy e startDir reportFileName d
        = LegacyCompleted (initState d)
            (if writable e (join startDir reportFileName)
             then Some (LegacyReport 0 0 0 [] []) else None)"
proof -
  have f: "findSpecFilesAndRelated d startDir = Inr []"
    using assms by (simp add: findSpecFilesAndRelated_def find_noSpec)
  have x: "existsSync d startDir" using assms(1) by (simp add: existsSync_def)
  show ?thesis
    using f x
    by (simp add: main_def main_legacy_def initState_def buildReport_def buildReport_legacy_def)
qed

theorem no_specs_no_report_witness:
  "nodeAt plainTree (Rel [''proj''])
     = Some (Dir [(''a.js'', File ''code a''), (''lib'', Dir [(''b.ts'', File ''code b'')])])
   \<and> noSpecInItems [(''a.js'', File ''code a''), (''lib'', Dir [(''b.ts'', File ''code b'')])]
   \<and> writable (scriptedEnv []) (join (Rel [''proj'']) ''simplify_report.json'')
   \<and> findSpecFilesAndRelated plainTree (Rel [''proj'']) = Inr []
   \<and> main (scriptedEnv []) (Rel [''proj'']) ''simplify_report.json'' plainTree
       = Completed (initState plainTree)
   \<and> reportWrites (initState plainTree) = []
   \<and> main_legacy (scriptedEnv []) (Rel [''proj'']) ''simplify_report.json'' plainTree
       = LegacyCompleted (initState plainTree) (Some (LegacyReport 0 0 0 [] []))"
proof -
  have h1: "nodeAt plainTree (Rel [''proj''])
     = Some (Dir [(''a.js'', File ''code a''), (''lib'', Dir [(''b.ts'', File ''code b'')])])"
    by (simp add: plainTree_def nodeAt_def locate_def startOf_def isDirAt_def)
  have h2: "noSpecInItems [(''a.js'', File ''code a''), (''lib'', Dir [(''b.ts'', File ''code b'')])]"
    by (simp add: isSpecName_def endsWith_def)
  have w: "writable (scriptedEnv []) (join (Rel [''proj'']) ''simplify_report.json'')"
    by (simp add: scriptedEnv_def)
  from no_specs_no_report[OF h1 h2, of "scriptedEnv []" "''simplify_report.json''"] h1 h2 w
  show ?thesis by simp
qed

section \<open>Pairing\<close>

lemma find_keeps:
  "set filesList \<subseteq> set (findDir fs dir n filesList)"
  "set filesList \<subseteq> set (findItems fs dir es filesList)"
  by (induction fs dir n filesList and fs dir es filesList rule: findDir_findItems.induct)
    (auto split: node.splits)

lemma find_complete:
  "lookup (q @ [item]) n = Some (File c) \<Longrightarrow> isSpecName item \<Longrightarrow>
     specRecord fs (foldl join dir q) item \<in> set (findDir fs dir n filesList)"
  "lookup (q @ [item]) (Dir es) = Some (File c) \<Longrightarrow> isSpecName item \<Longrightarrow>
     specRecord fs (foldl join dir q) item \<in> set (findItems fs dir es filesList)"
proof (induction fs dir n filesList and fs dir es filesList arbitrary: q and q
    rule: findDir_findItems.induct)
  case (1 fs dir es filesList)
  then show ?case by simp
next
  case (2 fs dir c' filesList)
  then show ?case by (cases q) auto
next
  case (3 fs dir filesList)
  then show ?case by (cases q) auto
next
  case (4 fs dir x n es filesList)
  let ?acc = "case n of
          Dir _ \<Rightarrow> findDir fs (join dir x) n filesList
        | File _ \<Rightarrow>
            (if isSpecName x then filesList @ [specRecord fs dir x] else filesList)"
  have eq: "findItems fs dir ((x, n) # es) filesList = findItems fs dir es ?acc"
    by simp
  have keep: "set ?acc \<subseteq> set (findItems fs dir es ?acc)"
    by (rule find_keeps(2))
  show ?case
  proof (cases q)
    case Nil
    show ?thesis
    proof (cases "x = item")
      case True
      then have "n = File c" using "4.prems"(1) Nil by simp
      then have "?acc = filesList @ [specRecord fs dir item]"
        using True "4.prems"(2) by simp
      then have "specRecord fs dir item \<in> set ?acc" by simp
      with keep have "specRecord fs dir item \<in> set (findItems fs dir es ?acc)"
        by (rule subsetD)
      then show ?thesis unfolding eq Nil by (simp only: foldl_Nil)
    next
      case False
      then have "lookup ([] @ [item]) (Dir es) = Some (File c)"
        using "4.prems"(1) Nil by simp
      from "4.IH"(2)[OF this "4.prems"(2)] show ?thesis
        unfolding eq Nil by (simp only: foldl_Nil)
    qed
  next
    case (Cons y q')
    show ?thesis
    proof (cases "x = y")
      case True
      then have l: "lookup (q' @ [item]) n = Some (File c)"
        using "4.prems"(1) Cons by simp
      then obtain es' where n: "n = Dir es'" by (cases n; cases q') auto
      from "4.IH"(1)[OF n l "4.prems"(2)]
      have "specRecord fs (foldl join (join dir x) q') item
          \<in> set (findDir fs (join dir x) n filesList)" .
      moreover have "?acc = findDir fs (join dir x) n filesList" using n by simp
      moreover have "foldl join (join dir x) q' = foldl join dir q" using Cons True by simp
      ultimately have "specRecord fs (foldl join dir q) item \<in> set ?acc" by simp
      with keep have "specRecord fs (foldl join dir q) item \<in> set (findItems fs dir es ?acc)"
        by (rule subsetD)
      then show ?thesis unfolding eq .
    next
      case False
      then have "lookup (q @ [item]) (Dir es) = Some (File c)"
        using "4.prems"(1) Cons by simp
      from "4.IH"(2)[OF this "4.prems"(2)] show ?thesis unfolding eq .
    qed
  qed
qed

text \<open>
  What discovery does in general: every regular file with a specification suffix under
  the start directory, \<open>q\<close> being the directories from there down to it, gets its
  record, paired or not. The record's \<open>relatedFilePath\<close> is the derived name joined to
  the path of the file's directory if that exists; only otherwise the derived name
  joined to \<open>path.dirname\<close> of that path, if that exists; otherwise it is absent.
\<close>

lemma discovery_complete:
  assumes "nodeAt fs dir = Some (Dir es)"
    and "lookup (q @ [item]) (Dir es) = Some (File c)"
    and "isSpecName item"
  shows "(\<exists>rs. findSpecFilesAndRelated fs dir = Inr rs
            \<and> specRecord fs (foldl join dir q) item \<in> set rs)
    \<and> specFilePath (specRecord fs (foldl join dir q) item) = join (foldl join dir q) item
    \<and> relatedFilePath (specRecord fs (foldl join dir q) item) =
        (if existsSync fs (join (foldl join dir q) (relatedName item))
           then Some (join (foldl join dir q) (relatedName item))
         else if existsSync fs (join (dirname (foldl join dir q)) (relatedName item))
           then Some (join (dirname (foldl join dir q)) (relatedName item))
         else None)
    \<and> (relatedFileName (specRecord fs (foldl join dir q) item) = None)
        = (relatedFilePath (specRecord fs (foldl join dir q) item) = None)"
proof -
  from find_complete(2)[OF assms(2) assms(3)]
  have "specRecord fs (foldl join dir q) item \<in> set (findItems fs dir es [])" .
  then show ?thesis
    using assms(1)
    by (simp add: findSpecFilesAndRelated_def specRecord_def resolveRelated_def Let_def)
qed

text \<open>
  C5. The directory of the second lookup is \<open>path.dirname\<close> of the path the program
  holds, which is the directory one level up only when that path ends in a name. Run
  in \<open>work/proj\<close> on the start directory \<open>.\<close>, the program looks for the subject of
  \<open>a.spec.js\<close> in \<open>.\<close> twice and leaves the record unpaired, although
  \<open>../a.js\<close> exists. Run in \<open>work/proj/sub\<close> on the start directory \<open>..\<close>, it
  looks in \<open>..\<close> and then in \<open>.\<close>, one level down, and pairs the record with
  \<open>work/proj/sub/a.js\<close>, not with \<open>work/a.js\<close>. On the absolute start directory
  \<open>/work/proj\<close> the record is paired with \<open>/work/a.js\<close>, one level up.
\<close>

theorem fallback_directory_is_dirname:
  "dirname (Rel [''.'']) = Rel [] \<and> join (Rel []) ''a.js'' = join (Rel [''.'']) ''a.js''
   \<and> findSpecFilesAndRelated inProj (Rel [''.''])
       = Inr [\<lparr> specFileName = ''a.spec.js'', specFilePath = Rel [''a.spec.js''],
                relatedFileName = None, relatedFilePath = None \<rparr>]
   \<and> readFileSync inProj (Rel [''..'', ''a.js'']) = Inr ''code up''
   \<and> dirname (Rel [''..'']) = Rel []
   \<and> findSpecFilesAndRelated inSub (Rel [''..''])
       = Inr [\<lparr> specFileName = ''a.spec.js'', specFilePath = Rel [''..'', ''a.spec.js''],
                relatedFileName = Some ''a.js'', relatedFilePath = Some (Rel [''a.js'']) \<rparr>]
   \<and> readFileSync inSub (Rel [''a.js'']) = Inr ''code down''
   \<and> readFileSync inSub (Rel [''..'', ''..'', ''a.js'']) = Inr ''code up''
   \<and> findSpecFilesAndRelated inProj (Abs [''work'', ''proj''])
       = Inr [\<lparr> specFileName = ''a.spec.js'',
                specFilePath = Abs [''work'', ''proj'', ''a.spec.js''],
                relatedFileName = Some ''a.js'',
                relatedFilePath = Some (Abs [''work'', ''a.js'']) \<rparr>]"
  by (simp add: findSpecFilesAndRelated_def inProj_def inSub_def workTree_def isSpecName_def
      endsWith_def specRecord_def resolveRelated_def relatedName_def startsWith_def join_def
      dirname_def existsSync_def readFileSync_def nodeAt_def locate_def startOf_def isDirAt_def
      Let_def)

section \<open>The derived subject name\<close>

lemma replaceFirst_first:
  assumes "pat \<noteq> []" "\<forall>i<length u. \<not> startsWith (drop i (u @ pat @ v)) pat"
  shows "replaceFirst pat rep (u @ pat @ v) = u @ rep @ v"
  using assms
proof (induction u)
  case Nil
  then obtain c cs where e: "pat @ v = c # cs" by (cases pat) auto
  have st: "startsWith (c # cs) pat" unfolding e[symmetric] by (simp add: startsWith_def)
  have dr: "drop (length pat) (c # cs) = v" unfolding e[symmetric] by simp
  show ?case by (simp add: e st dr)
next
  case (Cons a u)
  from Cons.prems(2) have "\<not> startsWith (drop 0 ((a # u) @ pat @ v)) pat" by blast
  then have n0: "\<not> startsWith (a # u @ pat @ v) pat" by simp
  have "\<forall>i<length u. \<not> startsWith (drop i (u @ pat @ v)) pat"
  proof (intro allI impI)
    fix i assume "i < length u"
    then have "Suc i < length (a # u)" by simp
    with Cons.prems(2) have "\<not> startsWith (drop (Suc i) ((a # u) @ pat @ v)) pat" by blast
    then show "\<not> startsWith (drop i (u @ pat @ v)) pat" by simp
  qed
  from Cons.IH[OF Cons.prems(1) this] n0 show ?case by simp
qed

lemma endsWith_prepend: "endsWith s t \<Longrightarrow> endsWith (u @ s) t"
  by (metis append.assoc endsWith_iff)

text \<open>
  C10. The derived name replaces the first occurrence of \<open>.spec.\<close> only: when the
  first occurrence in a name is the one after \<open>u\<close>, the name \<open>u.spec.v\<close> gives
  \<open>u.v\<close>, which still has a specification suffix when \<open>.v\<close> has one. So
  \<open>a.spec.spec.js\<close> gives \<open>a.spec.js\<close>, and in a directory that holds both files
  the second is paired with the first, itself a specification file of the same run.
\<close>

theorem first_marker_only:
  assumes "\<forall>i<length u. \<not> startsWith (drop i (u @ ''.spec.'' @ v)) ''.spec.''"
  shows "relatedName (u @ ''.spec.'' @ v) = u @ ''.'' @ v
    \<and> (isSpecName (''.'' @ v) \<longrightarrow> isSpecName (relatedName (u @ ''.spec.'' @ v)))
    \<and> relatedName ''a.spec.spec.js'' = ''a.spec.js''
    \<and> isSpecName ''a.spec.js''
    \<and> findSpecFilesAndRelated nestedSpecTree (Rel [''proj'']) =
        Inr [\<lparr> specFileName = ''a.spec.js'', specFilePath = Rel [''proj'', ''a.spec.js''],
                relatedFileName = None, relatedFilePath = None \<rparr>,
             \<lparr> specFileName = ''a.spec.spec.js'', specFilePath = Rel [''proj'', ''a.spec.spec.js''],
                relatedFileName = Some ''a.spec.js'',
                relatedFilePath = Some (Rel [''proj'', ''a.spec.js'']) \<rparr>]"
proof -
  have r: "relatedName (u @ ''.spec.'' @ v) = u @ ''.'' @ v"
    unfolding relatedName_def using assms by (intro replaceFirst_first) auto
  have s: "isSpecName (u @ ''.'' @ v)" if "isSpecName (''.'' @ v)"
    using that endsWith_prepend[of "''.'' @ v" _ u] by (auto simp: isSpecName_def)
  have ex: "relatedName ''a.spec.spec.js'' = ''a.spec.js''"
    by (simp add: relatedName_def startsWith_def)
  have sp: "isSpecName ''a.spec.js''" by (simp add: isSpecName_def endsWith_def)
  have d: "findSpecFilesAndRelated nestedSpecTree (Rel [''proj'']) =
        Inr [\<lparr> specFileName = ''a.spec.js'', specFilePath = Rel [''proj'', ''a.spec.js''],
                relatedFileName = None, relatedFilePath = None \<rparr>,
             \<lparr> specFileName = ''a.spec.spec.js'', specFilePath = Rel [''proj'', ''a.spec.spec.js''],
                relatedFileName = Some ''a.spec.js'',
                relatedFilePath = Some (Rel [''proj'', ''a.spec.js'']) \<rparr>]"
    by (simp add: findSpecFilesAndRelated_def nestedSpecTree_def isSpecName_def endsWith_def
        specRecord_def resolveRelated_def relatedName_def startsWith_def join_def dirname_def
        existsSync_def nodeAt_def locate_def startOf_def isDirAt_def Let_def)
  from r s ex sp d show ?thesis by simp
qed

theorem first_marker_only_witness:
  "\<not> startsWith (drop 0 (''a'' @ ''.spec.'' @ ''spec.js'')) ''.spec.''
   \<and> isSpecName (''.'' @ ''spec.js'')
   \<and> relatedName (''a'' @ ''.spec.'' @ ''spec.js'') = ''a'' @ ''.'' @ ''spec.js''
   \<and> isSpecName (relatedName (''a'' @ ''.spec.'' @ ''spec.js''))"
proof -
  have h0: "\<not> startsWith (drop 0 (''a'' @ ''.spec.'' @ ''spec.js'')) ''.spec.''"
    by (simp add: startsWith_def)
  then have h: "\<forall>i<length ''a''. \<not> startsWith (drop i (''a'' @ ''.spec.'' @ ''spec.js'')) ''.spec.''"
    by simp
  have g: "isSpecName (''.'' @ ''spec.js'')" by (simp add: isSpecName_def endsWith_def)
  from first_marker_only[OF h] h0 g show ?thesis by blast
qed

end
